theory Spec2Isabelle
  imports Complex_Main "HOL-Library.Word"
begin

section \<open>Pixels, canvases and the platform\<close>

text \<open>
  The slicing pipeline of \<^verbatim>\<open>src/utils/imageUtils.ts\<close> (the revision with
  \<^verbatim>\<open>alignAndMaximizeFrames\<close>) works on HTML canvases. A canvas is modelled by its
  width, its height and its bitmap, a row-major list of RGBA pixels
  (pixel \<open>(x, y)\<close> is at index \<open>y * width + x\<close>), as \<^verbatim>\<open>getImageData\<close> exposes it.
  A channel is a byte of the \<^verbatim>\<open>Uint8ClampedArray\<close>.
\<close>

record pixel =
  red :: "8 word"
  green :: "8 word"
  blue :: "8 word"
  alpha :: "8 word"

definition transparent :: pixel where
  "transparent = \<lparr>red = 0, green = 0, blue = 0, alpha = 0\<rparr>"

record canvas =
  width :: nat
  height :: nat
  bitmap :: "pixel list"

text \<open>
  \<^verbatim>\<open>document.createElement('canvas')\<close> followed by the assignments to
  \<^verbatim>\<open>width\<close> and \<^verbatim>\<open>height\<close>: a bitmap of transparent black.
\<close>

definition createCanvas :: "nat \<Rightarrow> nat \<Rightarrow> canvas" where
  "createCanvas w h = \<lparr>width = w, height = h, bitmap = replicate (w * h) transparent\<rparr>"

text \<open>
  A canvas holds its colours premultiplied by alpha: a pixel of alpha 0 has no colour, and
  reads back as transparent black whatever red, green and blue were written with it.
  (A pixel of another alpha is taken to read back as written: the pipeline writes a pixel
  either with the values it has just read from the same canvas or with alpha 0.)
\<close>

definition storedPixel :: "pixel \<Rightarrow> pixel" where
  "storedPixel p = (if alpha p = 0 then transparent else p)"

text \<open>
  The pixel that a read (\<^verbatim>\<open>getImageData\<close>, or \<^verbatim>\<open>drawImage\<close> from the canvas)
  finds at a position; outside the canvas every read is transparent black.
\<close>

definition pixelAt :: "canvas \<Rightarrow> nat \<Rightarrow> nat \<Rightarrow> pixel" where
  "pixelAt cv x y =
     (if x < width cv \<and> y < height cv then storedPixel (bitmap cv ! (y * width cv + x))
      else transparent)"

text \<open>Repainting a canvas: the size stays, pixel \<open>(x, y)\<close> becomes \<open>f x y\<close>.\<close>

definition paint :: "canvas \<Rightarrow> (nat \<Rightarrow> nat \<Rightarrow> pixel) \<Rightarrow> canvas" where
  "paint cv f =
     cv\<lparr>bitmap := map (\<lambda>i. f (i mod width cv) (i div width cv)) [0..<width cv * height cv]\<rparr>"

text \<open>
  The only exception the pipeline can meet: \<^verbatim>\<open>getImageData\<close> throws
  \<^verbatim>\<open>IndexSizeError\<close> when asked for a region of width or height zero.
  (\<^verbatim>\<open>drawImage\<close> throws on a source canvas without area, but every call of it
  comes after a \<^verbatim>\<open>getImageData\<close> on the whole of that canvas.)
\<close>

datatype error = IndexSizeError

text \<open>\<^verbatim>\<open>ctx.getImageData(0, 0, w, h).data\<close>, four bytes grouped into one pixel.\<close>

definition getImageData :: "canvas \<Rightarrow> nat \<Rightarrow> nat \<Rightarrow> error + pixel list" where
  "getImageData cv w h =
     (if w = 0 \<or> h = 0 then Inl IndexSizeError
      else Inr (map (\<lambda>i. pixelAt cv (i mod w) (i div w)) [0..<w * h]))"

text \<open>
  \<^verbatim>\<open>ctx.putImageData(imageData, 0, 0)\<close> for data of the canvas's own size. The
  write is not lossless: the colour of a pixel written with alpha 0 is lost.
\<close>

definition putImageData :: "pixel list \<Rightarrow> canvas \<Rightarrow> canvas" where
  "putImageData data cv = paint cv (\<lambda>x y. storedPixel (data ! (y * width cv + x)))"

text \<open>
  \<^verbatim>\<open>ctx.clearRect(x, y, w, h)\<close> with integer arguments and the identity transform:
  the pixels of the rectangle that lie on the canvas become transparent black.
\<close>

definition clearRect :: "int \<Rightarrow> int \<Rightarrow> int \<Rightarrow> int \<Rightarrow> canvas \<Rightarrow> canvas" where
  "clearRect x y w h cv =
     paint cv (\<lambda>px py.
       if x \<le> int px \<and> int px < x + w \<and> y \<le> int py \<and> int py < y + h
       then transparent else pixelAt cv px py)"

text \<open>
  What the browser decides is a parameter of the model.
  \<^item> \<open>getContext w h\<close>: whether \<^verbatim>\<open>getContext('2d')\<close> yields a context for a canvas
    of that size (the source tests every context for \<^verbatim>\<open>null\<close>).
  \<^item> \<open>drawImage src sx sy sw sh dx dy dw dh dst x y\<close>: the colour of pixel \<open>(x, y)\<close> of
    the canvas \<open>dst\<close> after \<^verbatim>\<open>drawImage(src, sx, sy, sw, sh, dx, dy, dw, dh)\<close>
    on its context. Resampling, smoothing and compositing are the browser's; drawing never
    resizes the destination, which \<open>drawOnto\<close> fixes.
  JavaScript numbers are idealised as rationals: the quotients and products of the
  source are exact here.
\<close>

record platform =
  getContext :: "nat \<Rightarrow> nat \<Rightarrow> bool"
  drawImage :: "canvas \<Rightarrow> rat \<Rightarrow> rat \<Rightarrow> rat \<Rightarrow> rat \<Rightarrow> rat \<Rightarrow> rat \<Rightarrow> rat \<Rightarrow> rat \<Rightarrow> canvas
                 \<Rightarrow> nat \<Rightarrow> nat \<Rightarrow> pixel"

definition drawOnto ::
  "platform \<Rightarrow> canvas \<Rightarrow> rat \<Rightarrow> rat \<Rightarrow> rat \<Rightarrow> rat \<Rightarrow> rat \<Rightarrow> rat \<Rightarrow> rat \<Rightarrow> rat \<Rightarrow> canvas \<Rightarrow> canvas" where
  "drawOnto P src sx sy sw sh dx dy dw dh dst =
     paint dst (drawImage P src sx sy sw sh dx dy dw dh dst)"

section \<open>getContentBounds\<close>

record bbox =
  box_x :: nat
  box_y :: nat
  box_w :: nat
  box_h :: nat

text \<open>The five variables of the scan: \<^verbatim>\<open>minX, minY, maxX, maxY, found\<close>.\<close>

record scan =
  minX :: nat
  minY :: nat
  maxX :: nat
  maxY :: nat
  found :: bool

definition whiteThreshold :: "8 word" where
  "whiteThreshold = 240"

text \<open>The body of the inner loop, at row \<open>y\<close> and column \<open>x\<close> of data of width \<open>w\<close>.\<close>

definition visit :: "pixel list \<Rightarrow> nat \<Rightarrow> nat \<Rightarrow> nat \<Rightarrow> scan \<Rightarrow> scan" where
  "visit data w y x s =
     (let p = data ! (y * w + x) in
      if 20 < alpha p then
        if red p < whiteThreshold \<or> green p < whiteThreshold \<or> blue p < whiteThreshold then
          s\<lparr>minX := (if x < minX s then x else minX s),
            maxX := (if maxX s < x then x else maxX s),
            minY := (if y < minY s then y else minY s),
            maxY := (if maxY s < y then y else maxY s),
            found := True\<rparr>
        else s
      else s)"

definition getContentBounds :: "canvas \<Rightarrow> nat \<Rightarrow> nat \<Rightarrow> error + bbox option" where
  "getContentBounds cv w h =
     (case getImageData cv w h of
        Inl e \<Rightarrow> Inl e
      | Inr data \<Rightarrow>
          (let s = fold (\<lambda>y. fold (\<lambda>x. visit data w y x) [0..<w]) [0..<h]
                     \<lparr>minX = w, minY = h, maxX = 0, maxY = 0, found = False\<rparr>
           in if \<not> found s then Inr None
              else Inr (Some \<lparr>box_x = minX s, box_y = minY s,
                              box_w = maxX s - minX s + 1, box_h = maxY s - minY s + 1\<rparr>)))"

section \<open>Loops that can throw\<close>

text \<open>
  A \<^verbatim>\<open>for\<close> loop (or \<^verbatim>\<open>forEach\<close>) over a list of indices whose body updates a
  state and may throw, and \<^verbatim>\<open>Array.prototype.map\<close> with a callback that may throw:
  the first exception ends the loop.
\<close>

fun forEachE :: "('a \<Rightarrow> 's \<Rightarrow> error + 's) \<Rightarrow> 'a list \<Rightarrow> 's \<Rightarrow> error + 's" where
  "forEachE body [] s = Inr s"
| "forEachE body (i # is) s =
     (case body i s of Inl e \<Rightarrow> Inl e | Inr s' \<Rightarrow> forEachE body is s')"

fun mapE :: "('a \<Rightarrow> error + 'b) \<Rightarrow> 'a list \<Rightarrow> error + 'b list" where
  "mapE f [] = Inr []"
| "mapE f (x # xs) =
     (case f x of
        Inl e \<Rightarrow> Inl e
      | Inr y \<Rightarrow> (case mapE f xs of Inl e \<Rightarrow> Inl e | Inr ys \<Rightarrow> Inr (y # ys)))"

section \<open>alignAndMaximizeFrames\<close>

text \<open>
  A frame of the result is the canvas that the source serialises with
  \<^verbatim>\<open>toDataURL('image/png')\<close>; the model returns the canvas itself.
\<close>

text \<open>The callback of \<^verbatim>\<open>frames.map\<close>: the bounds of one frame.\<close>

definition frameBounds :: "platform \<Rightarrow> canvas \<Rightarrow> error + bbox option" where
  "frameBounds P frame =
     (if \<not> getContext P (width frame) (height frame) then Inr None
      else getContentBounds frame (width frame) (height frame))"

text \<open>The \<^verbatim>\<open>bounds.forEach\<close> that computes \<^verbatim>\<open>maxContentW\<close> and \<^verbatim>\<open>maxContentH\<close>.\<close>

definition maxContent :: "bbox option list \<Rightarrow> nat \<times> nat" where
  "maxContent bounds =
     fold (\<lambda>b (maxContentW, maxContentH).
             case b of
               None \<Rightarrow> (maxContentW, maxContentH)
             | Some bb \<Rightarrow> (max maxContentW (box_w bb), max maxContentH (box_h bb)))
          bounds (0, 0)"

definition padding :: nat where
  "padding = 2"

text \<open>The callback of \<^verbatim>\<open>frames.forEach\<close>: one output frame is pushed, or none.\<close>

definition renderFrame ::
  "platform \<Rightarrow> nat \<Rightarrow> nat \<Rightarrow> canvas \<times> bbox option \<Rightarrow> canvas list \<Rightarrow> canvas list" where
  "renderFrame P finalW finalH fb resultBase64 =
     (let frame = fst fb; bound = snd fb; cnv = createCanvas finalW finalH in
      if getContext P finalW finalH then
        (case bound of
           Some b \<Rightarrow>
             (let targetX = (of_nat finalW - of_nat (box_w b)) / 2;
                  targetY = (of_nat finalH - of_nat (box_h b)) / 2
              in resultBase64 @
                 [drawOnto P frame (of_nat (box_x b)) (of_nat (box_y b))
                    (of_nat (box_w b)) (of_nat (box_h b))
                    targetX targetY (of_nat (box_w b)) (of_nat (box_h b)) cnv])
         | None \<Rightarrow> resultBase64 @ [cnv])
      else resultBase64)"

definition alignAndMaximizeFrames :: "platform \<Rightarrow> canvas list \<Rightarrow> error + canvas list" where
  "alignAndMaximizeFrames P frames =
     (case mapE (frameBounds P) frames of
        Inl e \<Rightarrow> Inl e
      | Inr bounds \<Rightarrow>
          (let maxContentW = fst (maxContent bounds);
               maxContentH = snd (maxContent bounds)
           in if maxContentW = 0 \<or> maxContentH = 0 then Inr []
              else
                (let finalW = maxContentW + padding * 2;
                     finalH = maxContentH + padding * 2
                 in Inr (fold (renderFrame P finalW finalH) (zip frames bounds) []))))"

section \<open>performFixedGridSlicing\<close>

definition safetyShave :: int where
  "safetyShave = 4"

text \<open>The four \<^verbatim>\<open>clearRect\<close> calls of the safety cleaning step, in the source's order.\<close>

definition shaveEdges :: "canvas \<Rightarrow> canvas" where
  "shaveEdges cellCanvas =
     (let cw = int (width cellCanvas); ch = int (height cellCanvas) in
      clearRect (cw - safetyShave) 0 safetyShave ch
        (clearRect 0 0 safetyShave ch
          (clearRect 0 (ch - safetyShave) cw safetyShave
            (clearRect 0 0 cw safetyShave cellCanvas))))"

definition threshold :: "8 word" where
  "threshold = 230"

text \<open>One step of the loop \<^verbatim>\<open>for (let i = 0; i < data.length; i += 4)\<close>.\<close>

definition keyOut :: "pixel \<Rightarrow> pixel" where
  "keyOut p =
     (if threshold < red p \<and> threshold < green p \<and> threshold < blue p
      then p\<lparr>alpha := 0\<rparr> else p)"

text \<open>The block under \<^verbatim>\<open>if (removeBg)\<close>.\<close>

definition removeWhite :: "canvas \<Rightarrow> error + canvas" where
  "removeWhite cellCanvas =
     (case getImageData cellCanvas (width cellCanvas) (height cellCanvas) of
        Inl e \<Rightarrow> Inl e
      | Inr data \<Rightarrow> Inr (putImageData (map keyOut data) cellCanvas))"

text \<open>
  What the loop body does to a cell once it is drawn (the spec's Cell Sanitizer):
  the edge shave, then the optional removal of white.
\<close>

definition sanitize :: "bool \<Rightarrow> canvas \<Rightarrow> error + canvas" where
  "sanitize removeBg cellCanvas =
     (if removeBg then removeWhite (shaveEdges cellCanvas) else Inr (shaveEdges cellCanvas))"

text \<open>The \<^verbatim>\<open>drawImage\<close> call of the loop body: the cell at row \<open>r\<close> and column \<open>c\<close>.\<close>

definition extractCell ::
  "platform \<Rightarrow> canvas \<Rightarrow> rat \<Rightarrow> rat \<Rightarrow> rat \<Rightarrow> rat \<Rightarrow> nat \<Rightarrow> nat \<Rightarrow> canvas" where
  "extractCell P cnv sourceX sourceY frameWidth frameHeight r c =
     (let cellCanvas = createCanvas (nat \<lceil>frameWidth\<rceil>) (nat \<lceil>frameHeight\<rceil>) in
      drawOnto P cnv
        (sourceX + of_nat c * frameWidth) (sourceY + of_nat r * frameHeight)
        frameWidth frameHeight
        0 0 (of_nat (width cellCanvas)) (of_nat (height cellCanvas)) cellCanvas)"

text \<open>The body of the inner loop.\<close>

definition cellStep ::
  "platform \<Rightarrow> canvas \<Rightarrow> rat \<Rightarrow> rat \<Rightarrow> rat \<Rightarrow> rat \<Rightarrow> bool \<Rightarrow> nat \<Rightarrow> nat
     \<Rightarrow> canvas list \<Rightarrow> error + canvas list" where
  "cellStep P cnv sourceX sourceY frameWidth frameHeight removeBg r c rawCanvases =
     (if getContext P (nat \<lceil>frameWidth\<rceil>) (nat \<lceil>frameHeight\<rceil>) then
        (case sanitize removeBg (extractCell P cnv sourceX sourceY frameWidth frameHeight r c) of
           Inl e \<Rightarrow> Inl e
         | Inr cell \<Rightarrow> Inr (rawCanvases @ [cell]))
      else Inr rawCanvases)"

text \<open>The grid area: the global content bounds, or the whole canvas.\<close>

definition gridArea :: "canvas \<Rightarrow> bbox option \<Rightarrow> bbox" where
  "gridArea cnv globalBounds =
     (case globalBounds of
        Some b \<Rightarrow> \<lparr>box_x = box_x b, box_y = box_y b, box_w = box_w b, box_h = box_h b\<rparr>
      | None \<Rightarrow> \<lparr>box_x = 0, box_y = 0, box_w = width cnv, box_h = height cnv\<rparr>)"

text \<open>
  \<^verbatim>\<open>performFixedGridSlicing\<close> up to the list \<^verbatim>\<open>rawCanvases\<close> (the spec's Grid
  Partitioner with the Cell Sanitizer applied to each cell).
\<close>

definition rawCanvasesOf ::
  "platform \<Rightarrow> canvas \<Rightarrow> nat \<Rightarrow> nat \<Rightarrow> bool \<Rightarrow> error + canvas list" where
  "rawCanvasesOf P cnv rows cols removeBg =
     (case getContentBounds cnv (width cnv) (height cnv) of
        Inl e \<Rightarrow> Inl e
      | Inr globalBounds \<Rightarrow>
          (let area = gridArea cnv globalBounds;
               sourceX = of_nat (box_x area); sourceY = of_nat (box_y area);
               frameWidth = of_nat (box_w area) / of_nat cols;
               frameHeight = of_nat (box_h area) / of_nat rows
           in forEachE
                (\<lambda>r. forEachE
                       (cellStep P cnv sourceX sourceY frameWidth frameHeight removeBg r)
                       [0..<cols])
                [0..<rows] []))"

definition performFixedGridSlicing ::
  "platform \<Rightarrow> canvas \<Rightarrow> nat \<Rightarrow> nat \<Rightarrow> bool \<Rightarrow> error + canvas list" where
  "performFixedGridSlicing P cnv rows cols removeBg =
     (if \<not> getContext P (width cnv) (height cnv) then Inr []
      else
        (case rawCanvasesOf P cnv rows cols removeBg of
           Inl e \<Rightarrow> Inl e
         | Inr rawCanvases \<Rightarrow> alignAndMaximizeFrames P rawCanvases))"

section \<open>sliceSpriteSheet\<close>

text \<open>
  The input is what the image element delivers: \<open>None\<close> when \<^verbatim>\<open>onerror\<close> fires,
  \<open>Some img\<close> when \<^verbatim>\<open>onload\<close> fires, \<open>img\<close> being the canvas of the image's size
  with the image drawn at the origin. \<open>Inr frames\<close> is the promise resolved with
  \<open>frames\<close>; \<open>Inl e\<close> is an exception that leaves the \<^verbatim>\<open>onload\<close> handler, after
  which the promise is never settled.
\<close>

definition sliceSpriteSheet ::
  "platform \<Rightarrow> canvas option \<Rightarrow> nat \<Rightarrow> nat \<Rightarrow> bool \<Rightarrow> error + canvas list" where
  "sliceSpriteSheet P img rows cols removeBg =
     (case img of
        None \<Rightarrow> Inr []
      | Some cnv \<Rightarrow>
          (if \<not> getContext P (width cnv) (height cnv) then Inr []
           else performFixedGridSlicing P cnv rows cols removeBg))"

section \<open>A reference platform\<close>

text \<open>
  A browser that always provides a context and draws by nearest-neighbour sampling,
  replacing the pixels of the destination rectangle. It instantiates the platform
  parameter in the examples.
\<close>

definition nearest :: platform where
  "nearest =
     \<lparr>getContext = (\<lambda>w h. True),
      drawImage = (\<lambda>src sx sy sw sh dx dy dw dh dst x y.
        if dx \<le> of_nat x \<and> of_nat x < dx + dw \<and> dy \<le> of_nat y \<and> of_nat y < dy + dh
        then pixelAt src (nat \<lfloor>sx + (of_nat x - dx) * sw / dw\<rfloor>)
                         (nat \<lfloor>sy + (of_nat y - dy) * sh / dh\<rfloor>)
        else pixelAt dst x y)\<rparr>"

definition opaque :: "8 word \<Rightarrow> 8 word \<Rightarrow> 8 word \<Rightarrow> pixel" where
  "opaque r g b = \<lparr>red = r, green = g, blue = b, alpha = 255\<rparr>"

section \<open>The vocabulary of the specification\<close>

text \<open>
  The definitions of this section follow the words of the specification, not the code;
  the theorems compare the code with them.
\<close>

text \<open>A pixel is foreground iff it is visible (alpha above 20) and not near-white.\<close>

definition spec_foreground :: "pixel \<Rightarrow> bool" where
  "spec_foreground p \<longleftrightarrow> 20 < alpha p \<and> (red p < 240 \<or> green p < 240 \<or> blue p < 240)"

text \<open>The positions of the foreground pixels in the top-left \<open>w \<times> h\<close> region of a canvas.\<close>

definition spec_foregroundSet :: "canvas \<Rightarrow> nat \<Rightarrow> nat \<Rightarrow> (nat \<times> nat) set" where
  "spec_foregroundSet cv w h =
     Set.filter (\<lambda>p. spec_foreground (pixelAt cv (fst p) (snd p))) ({0..<w} \<times> {0..<h})"

text \<open>The box \<^verbatim>\<open>{x: minX, y: minY, w: maxX-minX+1, h: maxY-minY+1}\<close> over a set of positions.\<close>

definition spec_tightBox :: "(nat \<times> nat) set \<Rightarrow> bbox" where
  "spec_tightBox F =
     \<lparr>box_x = Min (fst ` F), box_y = Min (snd ` F),
      box_w = Max (fst ` F) - Min (fst ` F) + 1,
      box_h = Max (snd ` F) - Min (snd ` F) + 1\<rparr>"

text \<open>A position lies in a box.\<close>

definition spec_inBox :: "bbox \<Rightarrow> nat \<times> nat \<Rightarrow> bool" where
  "spec_inBox b p \<longleftrightarrow>
     box_x b \<le> fst p \<and> fst p < box_x b + box_w b \<and>
     box_y b \<le> snd p \<and> snd p < box_y b + box_h b"

text \<open>The detected content of a whole raster: none, or the tight box of its foreground.\<close>

definition spec_bounds :: "canvas \<Rightarrow> bbox option" where
  "spec_bounds cv =
     (if spec_foregroundSet cv (width cv) (height cv) = {} then None
      else Some (spec_tightBox (spec_foregroundSet cv (width cv) (height cv))))"

text \<open>The maxima of the detected content widths and heights over the non-empty cells.\<close>

definition spec_maxW :: "canvas list \<Rightarrow> nat" where
  "spec_maxW cells = Max (set (map box_w (List.map_filter spec_bounds cells)))"

definition spec_maxH :: "canvas list \<Rightarrow> nat" where
  "spec_maxH cells = Max (set (map box_h (List.map_filter spec_bounds cells)))"

text \<open>A position within the 4 px margin of one of the four borders of a cell.\<close>

definition spec_inMargin :: "canvas \<Rightarrow> nat \<Rightarrow> nat \<Rightarrow> bool" where
  "spec_inMargin cell x y \<longleftrightarrow> x < 4 \<or> y < 4 \<or> width cell \<le> x + 4 \<or> height cell \<le> y + 4"

text \<open>The key-out condition: red, green and blue all exceed 230.\<close>

definition spec_keyedOut :: "pixel \<Rightarrow> bool" where
  "spec_keyedOut p \<longleftrightarrow> 230 < red p \<and> 230 < green p \<and> 230 < blue p"

text \<open>
  The grid area: the global content bounding box, or the entire raster when no content is
  found; and the real-valued cell size \<open>gridAreaWidth / cols\<close>, \<open>gridAreaHeight / rows\<close>.
\<close>

definition spec_gridArea :: "canvas \<Rightarrow> bbox" where
  "spec_gridArea cv =
     (case spec_bounds cv of
        Some b \<Rightarrow> b
      | None \<Rightarrow> \<lparr>box_x = 0, box_y = 0, box_w = width cv, box_h = height cv\<rparr>)"

definition spec_cellW :: "canvas \<Rightarrow> nat \<Rightarrow> rat" where
  "spec_cellW cv cols = of_nat (box_w (spec_gridArea cv)) / of_nat cols"

definition spec_cellH :: "canvas \<Rightarrow> nat \<Rightarrow> rat" where
  "spec_cellH cv rows = of_nat (box_h (spec_gridArea cv)) / of_nat rows"

text \<open>
  The standing assumptions on the environment: the browser yields a 2D context for every
  canvas, and a raster has positive width and height (section 3 of the specification).
\<close>

definition contextsAvailable :: "platform \<Rightarrow> bool" where
  "contextsAvailable P \<longleftrightarrow> (\<forall>w h. getContext P w h)"

definition positive :: "canvas \<Rightarrow> bool" where
  "positive cv \<longleftrightarrow> 0 < width cv \<and> 0 < height cv"

section \<open>Auxiliary definitions of the proofs\<close>

text \<open>The invariant of the scan after the foreground positions \<open>V\<close> have been visited.\<close>

definition scanInv :: "nat \<Rightarrow> nat \<Rightarrow> (nat \<times> nat) set \<Rightarrow> scan \<Rightarrow> bool" where
  "scanInv w h V s \<longleftrightarrow>
     (if V = {} then s = \<lparr>minX = w, minY = h, maxX = 0, maxY = 0, found = False\<rparr>
      else s = \<lparr>minX = Min (fst ` V), minY = Min (snd ` V),
                maxX = Max (fst ` V), maxY = Max (snd ` V), found = True\<rparr>)"

text \<open>The result of the sanitizing steps on a cell, when no exception is thrown.\<close>

definition sanitized :: "bool \<Rightarrow> canvas \<Rightarrow> canvas" where
  "sanitized removeBg cell =
     paint cell (\<lambda>x y.
       if spec_inMargin cell x y then transparent
       else if removeBg then storedPixel (keyOut (pixelAt cell x y)) else pixelAt cell x y)"

text \<open>The sanitized cell at row \<open>r\<close> and column \<open>c\<close> of the grid area.\<close>

definition gridCell :: "platform \<Rightarrow> canvas \<Rightarrow> nat \<Rightarrow> nat \<Rightarrow> bool \<Rightarrow> nat \<Rightarrow> nat \<Rightarrow> canvas" where
  "gridCell P cnv rows cols removeBg r c =
     sanitized removeBg
       (extractCell P cnv (of_nat (box_x (spec_gridArea cnv))) (of_nat (box_y (spec_gridArea cnv)))
          (spec_cellW cnv cols) (spec_cellH cnv rows) r c)"

text \<open>The list \<^verbatim>\<open>rawCanvases\<close> when no exception is thrown.\<close>

definition rawCells :: "platform \<Rightarrow> canvas \<Rightarrow> nat \<Rightarrow> nat \<Rightarrow> bool \<Rightarrow> canvas list" where
  "rawCells P cnv rows cols removeBg =
     (if getContext P (nat \<lceil>spec_cellW cnv cols\<rceil>) (nat \<lceil>spec_cellH cnv rows\<rceil>)
      then concat (map (\<lambda>r. map (gridCell P cnv rows cols removeBg r) [0..<cols]) [0..<rows])
      else [])"

text \<open>The bounds that \<^verbatim>\<open>frames.map\<close> computes for a frame of positive size.\<close>

definition detected :: "platform \<Rightarrow> canvas \<Rightarrow> bbox option" where
  "detected P frame =
     (if getContext P (width frame) (height frame) then spec_bounds frame else None)"

text \<open>The canvas that \<^verbatim>\<open>frames.forEach\<close> pushes for a frame, when it pushes one.\<close>

definition rendered :: "platform \<Rightarrow> nat \<Rightarrow> nat \<Rightarrow> canvas \<times> bbox option \<Rightarrow> canvas" where
  "rendered P finalW finalH fb =
     (case snd fb of
        Some b \<Rightarrow>
          drawOnto P (fst fb) (of_nat (box_x b)) (of_nat (box_y b))
            (of_nat (box_w b)) (of_nat (box_h b))
            ((of_nat finalW - of_nat (box_w b)) / 2) ((of_nat finalH - of_nat (box_h b)) / 2)
            (of_nat (box_w b)) (of_nat (box_h b)) (createCanvas finalW finalH)
      | None \<Rightarrow> createCanvas finalW finalH)"

text \<open>The result of \<^verbatim>\<open>alignAndMaximizeFrames\<close> when no exception is thrown.\<close>

definition aligned :: "platform \<Rightarrow> canvas list \<Rightarrow> canvas list" where
  "aligned P frames =
     (let bounds = map (detected P) frames;
          finalW = fst (maxContent bounds) + 4;
          finalH = snd (maxContent bounds) + 4
      in if fst (maxContent bounds) = 0 \<or> snd (maxContent bounds) = 0 then []
         else if getContext P finalW finalH
              then map (rendered P finalW finalH) (zip frames bounds)
              else [])"

section \<open>Example inputs\<close>

text \<open>A \<open>2 \<times> 2\<close> raster whose only foreground pixel is the opaque black one at \<open>(1, 0)\<close>.\<close>

definition dot2 :: canvas where
  "dot2 = \<lparr>width = 2, height = 2,
           bitmap = [transparent, opaque 0 0 0, opaque 255 255 255, transparent]\<rparr>"

text \<open>
  A \<open>10 \<times> 9\<close> cell, opaque black in column 4 and opaque white elsewhere: the
  edge shave leaves the pixels \<open>(4, 4)\<close> and \<open>(5, 4)\<close>.
\<close>

definition stripe :: canvas where
  "stripe = paint (createCanvas 10 9)
              (\<lambda>x y. if x = 4 then opaque 0 0 0 else opaque 255 255 255)"

text \<open>A blank \<open>1 \<times> 1\<close> cell, and a sequence of two cells: one with content, one without.\<close>

definition blank1 :: canvas where
  "blank1 = createCanvas 1 1"

definition pair :: "canvas list" where
  "pair = [dot2, blank1]"

text \<open>The canvas that the removal of white makes of \<open>dot2\<close>.\<close>

definition dot2_keyed :: canvas where
  "dot2_keyed = \<lparr>width = 2, height = 2,
                 bitmap = [transparent, opaque 0 0 0, transparent, transparent]\<rparr>"


text \<open>Two decoded \<open>9 \<times> 9\<close> images: opaque white, and opaque black.\<close>

definition white9 :: canvas where
  "white9 = paint (createCanvas 9 9) (\<lambda>x y. opaque 255 255 255)"

definition black9 :: canvas where
  "black9 = paint (createCanvas 9 9) (\<lambda>x y. opaque 0 0 0)"

section \<open>Canvas arithmetic\<close>

lemma idx_lt: "x < w \<Longrightarrow> y < h \<Longrightarrow> y * w + x < w * (h::nat)"
proof -
  assume a: "x < w" "y < h"
  then have "y * w + x < y * w + w" by simp
  also have "\<dots> = (Suc y) * w" by simp
  also have "\<dots> \<le> h * w" using a(2) by (intro mult_le_mono1) simp
  finally show ?thesis by (simp add: mult.commute)
qed

lemma width_paint [simp]: "width (paint cv f) = width cv"
  by (simp add: paint_def)

lemma height_paint [simp]: "height (paint cv f) = height cv"
  by (simp add: paint_def)

lemma storedPixel_transparent [simp]: "storedPixel transparent = transparent"
  by (simp add: storedPixel_def)

lemma storedPixel_idem [simp]: "storedPixel (storedPixel p) = storedPixel p"
  by (simp add: storedPixel_def transparent_def)

lemma storedPixel_alpha0 [simp]: "storedPixel (p\<lparr>alpha := 0\<rparr>) = transparent"
  by (simp add: storedPixel_def)

lemma storedPixel_pixelAt [simp]: "storedPixel (pixelAt cv x y) = pixelAt cv x y"
  by (simp add: pixelAt_def)

lemma storedPixel_opaque [simp]: "storedPixel (opaque r g b) = opaque r g b"
  by (simp add: storedPixel_def opaque_def)

lemma pixelAt_paint:
  "pixelAt (paint cv f) x y =
     (if x < width cv \<and> y < height cv then storedPixel (f x y) else transparent)"
  by (simp add: pixelAt_def paint_def idx_lt)

lemma getImageData_Inr:
  "0 < w \<Longrightarrow> 0 < h \<Longrightarrow>
   getImageData cv w h = Inr (map (\<lambda>i. pixelAt cv (i mod w) (i div w)) [0..<w * h])"
  by (simp add: getImageData_def)

lemma imageData_nth:
  "x < w \<Longrightarrow> y < h \<Longrightarrow>
   map (\<lambda>i. pixelAt cv (i mod w) (i div w)) [0..<w * h] ! (y * w + x) = pixelAt cv x y"
  by (simp add: idx_lt)

lemma nested_fold:
  "fold (\<lambda>y. fold (\<lambda>x. g y x) xs) ys s =
   fold (\<lambda>p. g (snd p) (fst p)) (concat (map (\<lambda>y. map (\<lambda>x. (x, y)) xs) ys)) s"
  by (induction ys arbitrary: s) (simp_all add: fold_map comp_def)

lemma set_grid:
  "set (concat (map (\<lambda>y. map (\<lambda>x. (x, y)) [0..<w]) [0..<h])) = {0..<w} \<times> {0..<h}"
  by auto

lemma visit_skip:
  "\<not> spec_foreground (data ! (y * w + x)) \<Longrightarrow> visit data w y x s = s"
  by (auto simp: visit_def spec_foreground_def whiteThreshold_def Let_def)

lemma visit_hit:
  "spec_foreground (data ! (y * w + x)) \<Longrightarrow>
   visit data w y x s =
     \<lparr>minX = min x (minX s), minY = min y (minY s),
      maxX = max x (maxX s), maxY = max y (maxY s), found = True\<rparr>"
  by (cases s) (auto simp: visit_def spec_foreground_def whiteThreshold_def Let_def min_def max_def)

lemma scanInv_step:
  assumes inv: "scanInv w h V s" and fin: "finite V" and xw: "x < w" and yh: "y < h"
    and fg: "spec_foreground (data ! (y * w + x))"
  shows "scanInv w h (insert (x, y) V) (visit data w y x s)"
proof (cases "V = {}")
  case True
  with inv have s: "s = \<lparr>minX = w, minY = h, maxX = 0, maxY = 0, found = False\<rparr>"
    by (simp add: scanInv_def)
  show ?thesis using True xw yh
    by (simp add: visit_hit [OF fg] s scanInv_def min_def)
next
  case False
  with inv have s: "s = \<lparr>minX = Min (fst ` V), minY = Min (snd ` V),
                maxX = Max (fst ` V), maxY = Max (snd ` V), found = True\<rparr>"
    by (simp add: scanInv_def)
  from False fin have ne: "fst ` V \<noteq> {}" "snd ` V \<noteq> {}" "finite (fst ` V)" "finite (snd ` V)"
    by auto
  show ?thesis using ne
    by (simp add: visit_hit [OF fg] s scanInv_def)
qed

lemma scanInv_fold:
  assumes "\<forall>p \<in> set ps. fst p < w \<and> snd p < h"
  shows "scanInv w h {p \<in> set ps. spec_foreground (data ! (snd p * w + fst p))}
           (fold (\<lambda>p. visit data w (snd p) (fst p)) ps
              \<lparr>minX = w, minY = h, maxX = 0, maxY = 0, found = False\<rparr>)"
  using assms
proof (induction ps rule: rev_induct)
  case Nil
  show ?case by (simp add: scanInv_def)
next
  case (snoc p ps)
  let ?V = "{q \<in> set ps. spec_foreground (data ! (snd q * w + fst q))}"
  let ?s = "fold (\<lambda>p. visit data w (snd p) (fst p)) ps
              \<lparr>minX = w, minY = h, maxX = 0, maxY = 0, found = False\<rparr>"
  from snoc have ih: "scanInv w h ?V ?s" by simp
  show ?case
  proof (cases "spec_foreground (data ! (snd p * w + fst p))")
    case True
    have eq: "{q \<in> set (ps @ [p]). spec_foreground (data ! (snd q * w + fst q))} = insert (fst p, snd p) ?V"
      using True by auto
    have step: "scanInv w h (insert (fst p, snd p) ?V) (visit data w (snd p) (fst p) ?s)"
      using snoc.prems True by (intro scanInv_step [OF ih]) auto
    have f: "fold (\<lambda>p. visit data w (snd p) (fst p)) (ps @ [p])
              \<lparr>minX = w, minY = h, maxX = 0, maxY = 0, found = False\<rparr>
             = visit data w (snd p) (fst p) ?s"
      by simp
    show ?thesis unfolding eq f by (rule step)
  next
    case False
    have eq: "{q \<in> set (ps @ [p]). spec_foreground (data ! (snd q * w + fst q))} = ?V"
      using False by auto
    have f: "fold (\<lambda>p. visit data w (snd p) (fst p)) (ps @ [p])
              \<lparr>minX = w, minY = h, maxX = 0, maxY = 0, found = False\<rparr> = ?s"
      by (simp add: visit_skip [OF False])
    show ?thesis unfolding eq f by (rule ih)
  qed
qed

lemma scan_result:
  assumes "0 < w" "0 < h"
  shows "scanInv w h (spec_foregroundSet cv w h)
           (fold (\<lambda>y. fold (\<lambda>x. visit (map (\<lambda>i. pixelAt cv (i mod w) (i div w)) [0..<w * h]) w y x) [0..<w]) [0..<h]
              \<lparr>minX = w, minY = h, maxX = 0, maxY = 0, found = False\<rparr>)"
proof -
  let ?data = "map (\<lambda>i. pixelAt cv (i mod w) (i div w)) [0..<w * h]"
  let ?ps = "concat (map (\<lambda>y. map (\<lambda>x. (x, y)) [0..<w]) [0..<h])"
  have in_grid: "\<forall>p \<in> set ?ps. fst p < w \<and> snd p < h"
    by auto
  have "{p \<in> set ?ps. spec_foreground (?data ! (snd p * w + fst p))} = spec_foregroundSet cv w h"
    unfolding spec_foregroundSet_def set_grid
    by (auto simp: imageData_nth simp del: upt_conv_Cons)
  with scanInv_fold [OF in_grid, of ?data] show ?thesis
    by (simp only: nested_fold)
qed

lemma getContentBounds_eq:
  assumes "0 < w" "0 < h"
  shows "getContentBounds cv w h =
         Inr (if spec_foregroundSet cv w h = {} then None
              else Some (spec_tightBox (spec_foregroundSet cv w h)))"
  using scan_result [OF assms, of cv] assms
  by (simp add: getContentBounds_def getImageData_def Let_def scanInv_def spec_tightBox_def
           split: if_splits)

lemma finite_foregroundSet [simp]: "finite (spec_foregroundSet cv w h)"
  by (simp add: spec_foregroundSet_def)

lemma tightBox_contains:
  assumes "finite F" and "p \<in> F"
  shows "spec_inBox (spec_tightBox F) p"
proof -
  have "Min (fst ` F) \<le> fst p" "fst p \<le> Max (fst ` F)"
       "Min (snd ` F) \<le> snd p" "snd p \<le> Max (snd ` F)"
    using assms by simp_all
  then show ?thesis
    by (simp add: spec_inBox_def spec_tightBox_def)
qed

lemma tightBox_least:
  assumes fin: "finite F" and ne: "F \<noteq> {}" and all: "\<forall>p \<in> F. spec_inBox b p"
  shows "box_x b \<le> box_x (spec_tightBox F) \<and>
         box_y b \<le> box_y (spec_tightBox F) \<and>
         box_x (spec_tightBox F) + box_w (spec_tightBox F) \<le> box_x b + box_w b \<and>
         box_y (spec_tightBox F) + box_h (spec_tightBox F) \<le> box_y b + box_h b"
proof -
  from fin ne have fx: "finite (fst ` F)" "fst ` F \<noteq> {}" and fy: "finite (snd ` F)" "snd ` F \<noteq> {}"
    by auto
  obtain p1 where p1: "p1 \<in> F" "fst p1 = Min (fst ` F)"
    using Min_in [OF fx] by auto
  obtain p2 where p2: "p2 \<in> F" "fst p2 = Max (fst ` F)"
    using Max_in [OF fx] by auto
  obtain p3 where p3: "p3 \<in> F" "snd p3 = Min (snd ` F)"
    using Min_in [OF fy] by auto
  obtain p4 where p4: "p4 \<in> F" "snd p4 = Max (snd ` F)"
    using Max_in [OF fy] by auto
  have le: "Min (fst ` F) \<le> Max (fst ` F)" "Min (snd ` F) \<le> Max (snd ` F)"
    using fx fy by simp_all
  from all p1 p2 p3 p4 have
    "spec_inBox b p1" "spec_inBox b p2" "spec_inBox b p3" "spec_inBox b p4" by auto
  with p1 p2 p3 p4 le show ?thesis
    by (simp add: spec_inBox_def spec_tightBox_def)
qed

text \<open>
  C2. For a raster of positive size, \<^verbatim>\<open>getContentBounds\<close> returns none iff no
  pixel is foreground (alpha above 20 and one of red, green, blue below 240); otherwise
  it returns the box \<open>{x: minX, y: minY, w: maxX-minX+1, h: maxY-minY+1}\<close> over the
  foreground pixels, which contains every foreground pixel and lies inside every box that
  does. A fully transparent raster and a fully near-white raster yield none.
\<close>

theorem C2_getContentBounds:
  assumes "0 < w" and "0 < h"
  shows "getContentBounds cv w h =
           Inr (if spec_foregroundSet cv w h = {} then None
                else Some (spec_tightBox (spec_foregroundSet cv w h)))
         \<and> ((getContentBounds cv w h = Inr None) =
              (\<forall>x < w. \<forall>y < h. \<not> spec_foreground (pixelAt cv x y)))
         \<and> (\<forall>p \<in> spec_foregroundSet cv w h.
               spec_inBox (spec_tightBox (spec_foregroundSet cv w h)) p)
         \<and> (\<forall>b. spec_foregroundSet cv w h \<noteq> {}
                  \<and> (\<forall>p \<in> spec_foregroundSet cv w h. spec_inBox b p) \<longrightarrow>
                box_x b \<le> box_x (spec_tightBox (spec_foregroundSet cv w h)) \<and>
                box_y b \<le> box_y (spec_tightBox (spec_foregroundSet cv w h)) \<and>
                box_x (spec_tightBox (spec_foregroundSet cv w h))
                  + box_w (spec_tightBox (spec_foregroundSet cv w h)) \<le> box_x b + box_w b \<and>
                box_y (spec_tightBox (spec_foregroundSet cv w h))
                  + box_h (spec_tightBox (spec_foregroundSet cv w h)) \<le> box_y b + box_h b)
         \<and> ((\<forall>x < w. \<forall>y < h. alpha (pixelAt cv x y) = 0) \<longrightarrow>
                getContentBounds cv w h = Inr None)
         \<and> ((\<forall>x < w. \<forall>y < h. 240 \<le> red (pixelAt cv x y) \<and>
                  240 \<le> green (pixelAt cv x y) \<and> 240 \<le> blue (pixelAt cv x y)) \<longrightarrow>
                getContentBounds cv w h = Inr None)"
proof -
  let ?F = "spec_foregroundSet cv w h"
  have eq: "getContentBounds cv w h = Inr (if ?F = {} then None else Some (spec_tightBox ?F))"
    by (rule getContentBounds_eq [OF assms])
  have empty: "(?F = {}) = (\<forall>x < w. \<forall>y < h. \<not> spec_foreground (pixelAt cv x y))"
    by (auto simp: spec_foregroundSet_def)
  have none: "(getContentBounds cv w h = Inr None) =
              (\<forall>x < w. \<forall>y < h. \<not> spec_foreground (pixelAt cv x y))"
    unfolding eq empty [symmetric] by simp
  have inside: "\<forall>p \<in> ?F. spec_inBox (spec_tightBox ?F) p"
    by (simp add: tightBox_contains)
  have least: "\<forall>b. ?F \<noteq> {} \<and> (\<forall>p \<in> ?F. spec_inBox b p) \<longrightarrow>
                box_x b \<le> box_x (spec_tightBox ?F) \<and>
                box_y b \<le> box_y (spec_tightBox ?F) \<and>
                box_x (spec_tightBox ?F) + box_w (spec_tightBox ?F) \<le> box_x b + box_w b \<and>
                box_y (spec_tightBox ?F) + box_h (spec_tightBox ?F) \<le> box_y b + box_h b"
    using tightBox_least [of ?F] by simp
  have clear: "(\<forall>x < w. \<forall>y < h. alpha (pixelAt cv x y) = 0) \<longrightarrow>
                getContentBounds cv w h = Inr None"
    unfolding none by (simp add: spec_foreground_def)
  have white: "(\<forall>x < w. \<forall>y < h. 240 \<le> red (pixelAt cv x y) \<and>
                  240 \<le> green (pixelAt cv x y) \<and> 240 \<le> blue (pixelAt cv x y)) \<longrightarrow>
                getContentBounds cv w h = Inr None"
    unfolding none by (fastforce simp: spec_foreground_def simp flip: not_le)
  from eq none inside least clear white show ?thesis
    by (intro conjI)
qed

lemma dot2_foreground: "spec_foregroundSet dot2 2 2 = {(1, 0)}"
  by code_simp

lemma blank1_clear: "\<forall>x < 1. \<forall>y < 1. alpha (pixelAt blank1 x y) = 0"
  by (simp add: blank1_def pixelAt_def createCanvas_def storedPixel_def transparent_def)

lemma white9_white:
  "\<forall>x < 9. \<forall>y < 9. 240 \<le> red (pixelAt white9 x y) \<and>
      240 \<le> green (pixelAt white9 x y) \<and> 240 \<le> blue (pixelAt white9 x y)"
  by (simp add: white9_def pixelAt_paint createCanvas_def) (simp add: opaque_def)

theorem C2_getContentBounds_witness:
  "(0::nat) < 2 \<and> spec_foregroundSet dot2 2 2 = {(1, 0)} \<and>
   getContentBounds dot2 2 2 = Inr (Some \<lparr>box_x = 1, box_y = 0, box_w = 1, box_h = 1\<rparr>) \<and>
   getContentBounds blank1 1 1 = Inr None \<and>
   getContentBounds white9 9 9 = Inr None"
proof -
  have pos: "(0::nat) < 2" "(0::nat) < 1" "(0::nat) < 9" by simp_all
  have box: "spec_tightBox {(1, 0)} = \<lparr>box_x = 1, box_y = 0, box_w = 1, box_h = 1\<rparr>"
    by (simp add: spec_tightBox_def)
  have "getContentBounds dot2 2 2 =
          Inr (if spec_foregroundSet dot2 2 2 = {} then None
               else Some (spec_tightBox (spec_foregroundSet dot2 2 2)))"
    using C2_getContentBounds [OF pos(1) pos(1), of dot2] by (rule conjunct1)
  then have dot: "getContentBounds dot2 2 2 =
               Inr (Some \<lparr>box_x = 1, box_y = 0, box_w = 1, box_h = 1\<rparr>)"
    by (simp only: dot2_foreground box insert_not_empty if_False)
  have blank: "getContentBounds blank1 1 1 = Inr None"
    using C2_getContentBounds [OF pos(2) pos(2), of blank1] blank1_clear by blast
  have white: "getContentBounds white9 9 9 = Inr None"
    using C2_getContentBounds [OF pos(3) pos(3), of white9] white9_white by blast
  from pos(1) dot2_foreground dot blank white show ?thesis
    by (intro conjI)
qed

section \<open>The sanitizing steps\<close>

lemma paint_cong:
  assumes "\<And>x y. x < width cv \<Longrightarrow> y < height cv \<Longrightarrow> f x y = g x y"
  shows "paint cv f = paint cv g"
proof -
  have "f (i mod width cv) (i div width cv) = g (i mod width cv) (i div width cv)"
    if "i < width cv * height cv" for i
  proof -
    from that have "0 < width cv" by (cases "width cv") simp_all
    moreover from that have "i div width cv < height cv"
      by (simp add: less_mult_imp_div_less mult.commute)
    ultimately show ?thesis by (simp add: assms)
  qed
  then show ?thesis by (simp add: paint_def)
qed

lemma paint_paint [simp]: "paint (paint cv f) g = paint cv g"
  by (simp add: paint_def)

lemma pixelAt_outside: "\<not> (x < width cv \<and> y < height cv) \<Longrightarrow> pixelAt cv x y = transparent"
  by (auto simp: pixelAt_def)

lemma clearRect_paint:
  "clearRect x y w h (paint cv f) =
   paint cv (\<lambda>px py. if x \<le> int px \<and> int px < x + w \<and> y \<le> int py \<and> int py < y + h
                      then transparent else storedPixel (f px py))"
  unfolding clearRect_def paint_paint
  by (rule paint_cong) (simp add: pixelAt_paint)

lemma shaveEdges_eq:
  "shaveEdges cell =
   paint cell (\<lambda>x y. if spec_inMargin cell x y then transparent else pixelAt cell x y)"
proof -
  have first: "clearRect 0 0 (int (width cell)) safetyShave cell =
      paint cell (\<lambda>px py. if 0 \<le> int px \<and> int px < 0 + int (width cell) \<and> 0 \<le> int py \<and> int py < 0 + safetyShave
                      then transparent else pixelAt cell px py)"
    by (simp add: clearRect_def)
  show ?thesis
    unfolding shaveEdges_def Let_def first clearRect_paint
    by (rule paint_cong) (auto simp: spec_inMargin_def safetyShave_def)
qed

lemma width_shaveEdges [simp]: "width (shaveEdges cell) = width cell"
  by (simp add: shaveEdges_eq)

lemma height_shaveEdges [simp]: "height (shaveEdges cell) = height cell"
  by (simp add: shaveEdges_eq)

lemma spec_inMargin_paint [simp]: "spec_inMargin (paint cv f) = spec_inMargin cv"
  by (simp add: spec_inMargin_def fun_eq_iff)

lemma shaveEdges_idem: "shaveEdges (shaveEdges cell) = shaveEdges cell"
proof -
  let ?S = "\<lambda>x y. if spec_inMargin cell x y then transparent else pixelAt cell x y"
  have "shaveEdges (paint cell ?S) =
        paint cell (\<lambda>x y. if spec_inMargin cell x y then transparent
                           else pixelAt (paint cell ?S) x y)"
    by (simp add: shaveEdges_eq [of "paint cell ?S"])
  also have "\<dots> = paint cell ?S"
    by (rule paint_cong) (simp add: pixelAt_paint)
  finally show ?thesis by (simp add: shaveEdges_eq [of cell])
qed

lemma removeWhite_eq:
  assumes "positive cell"
  shows "removeWhite cell = Inr (paint cell (\<lambda>x y. storedPixel (keyOut (pixelAt cell x y))))"
proof -
  let ?w = "width cell" and ?h = "height cell"
  let ?data = "map (\<lambda>i. pixelAt cell (i mod ?w) (i div ?w)) [0..<?w * ?h]"
  from assms have pos: "0 < ?w" "0 < ?h" by (simp_all add: positive_def)
  have "putImageData (map keyOut ?data) cell =
        paint cell (\<lambda>x y. storedPixel (keyOut (pixelAt cell x y)))"
    unfolding putImageData_def
    by (rule paint_cong) (simp add: idx_lt)
  then show ?thesis
    by (simp add: removeWhite_def getImageData_Inr [OF pos])
qed

lemma positive_paint [simp]: "positive (paint cv f) = positive cv"
  by (simp add: positive_def)

lemma sanitize_eq:
  assumes "removeBg \<Longrightarrow> positive cell"
  shows "sanitize removeBg cell = Inr (sanitized removeBg cell)"
proof (cases removeBg)
  case False
  then show ?thesis by (simp add: sanitize_def sanitized_def shaveEdges_eq cong: if_cong)
next
  case True
  let ?S = "\<lambda>x y. if spec_inMargin cell x y then transparent else pixelAt cell x y"
  from True assms have "positive (paint cell ?S)" by simp
  then have "removeWhite (paint cell ?S) =
             Inr (paint cell (\<lambda>x y. storedPixel (keyOut (pixelAt (paint cell ?S) x y))))"
    by (simp add: removeWhite_eq)
  also have "paint cell (\<lambda>x y. storedPixel (keyOut (pixelAt (paint cell ?S) x y))) =
             sanitized True cell"
    unfolding sanitized_def
    by (rule paint_cong)
       (simp add: pixelAt_paint keyOut_def threshold_def storedPixel_def transparent_def)
  finally show ?thesis using True by (simp add: sanitize_def shaveEdges_eq)
qed

lemma width_sanitized [simp]: "width (sanitized removeBg cell) = width cell"
  by (simp add: sanitized_def)

lemma height_sanitized [simp]: "height (sanitized removeBg cell) = height cell"
  by (simp add: sanitized_def)

lemma pixelAt_sanitized:
  "x < width cell \<Longrightarrow> y < height cell \<Longrightarrow>
   pixelAt (sanitized removeBg cell) x y =
     (if spec_inMargin cell x y then transparent
      else if removeBg then storedPixel (keyOut (pixelAt cell x y)) else pixelAt cell x y)"
  by (simp add: sanitized_def pixelAt_paint)

lemma keyOut_cases:
  "keyOut p = (if spec_keyedOut p then p\<lparr>alpha := 0\<rparr> else p)"
  by (simp add: keyOut_def spec_keyedOut_def threshold_def)

text \<open>
  C7. On a cell of positive size the sanitizing steps of the loop body return a cell of the
  same size in which every pixel within 4 px of one of the four borders has alpha 0; with
  \<^verbatim>\<open>removeBg\<close>, every pixel whose red, green and blue all exceed 230 (before, or
  after) has alpha 0; and every pixel outside the margin that is not keyed out is the
  pixel of the extracted cell.
\<close>

theorem C7_sanitize:
  assumes "positive cell"
  shows "\<exists>out. sanitize removeBg cell = Inr out \<and>
           width out = width cell \<and> height out = height cell \<and>
           (\<forall>x < width cell. \<forall>y < height cell.
              (spec_inMargin cell x y \<longrightarrow> alpha (pixelAt out x y) = 0) \<and>
              (removeBg \<and> spec_keyedOut (pixelAt cell x y) \<longrightarrow> alpha (pixelAt out x y) = 0) \<and>
              (removeBg \<and> spec_keyedOut (pixelAt out x y) \<longrightarrow> alpha (pixelAt out x y) = 0) \<and>
              (\<not> spec_inMargin cell x y \<and> \<not> (removeBg \<and> spec_keyedOut (pixelAt cell x y)) \<longrightarrow>
                 pixelAt out x y = pixelAt cell x y))"
proof -
  have eq: "sanitize removeBg cell = Inr (sanitized removeBg cell)"
    using assms by (rule sanitize_eq)
  have px: "\<forall>x < width cell. \<forall>y < height cell.
        (spec_inMargin cell x y \<longrightarrow> alpha (pixelAt (sanitized removeBg cell) x y) = 0) \<and>
        (removeBg \<and> spec_keyedOut (pixelAt cell x y) \<longrightarrow>
           alpha (pixelAt (sanitized removeBg cell) x y) = 0) \<and>
        (removeBg \<and> spec_keyedOut (pixelAt (sanitized removeBg cell) x y) \<longrightarrow>
           alpha (pixelAt (sanitized removeBg cell) x y) = 0) \<and>
        (\<not> spec_inMargin cell x y \<and> \<not> (removeBg \<and> spec_keyedOut (pixelAt cell x y)) \<longrightarrow>
           pixelAt (sanitized removeBg cell) x y = pixelAt cell x y)"
    by (simp add: pixelAt_sanitized keyOut_cases)
       (simp add: transparent_def spec_keyedOut_def)
  show ?thesis
    by (rule exI [of _ "sanitized removeBg cell"])
       (rule conjI [OF eq], rule conjI [OF width_sanitized],
        rule conjI [OF height_sanitized], rule px)
qed

text \<open>
  C8. Without \<^verbatim>\<open>removeBg\<close> the sanitizing steps are idempotent: run on their own
  result they return it unchanged.
\<close>

theorem C8_sanitize_idempotent:
  "\<exists>out. sanitize False cell = Inr out \<and> sanitize False out = Inr out"
  by (simp add: sanitize_def shaveEdges_idem)

text \<open>
  C9, as amended. The loop of the removal of white writes only the alpha byte of the image
  data: \<open>keyOut\<close> changes no red, green or blue value, and it changes alpha, to 0, only
  where red, green and blue all exceed 230. On the canvas after \<^verbatim>\<open>putImageData\<close>,
  the alpha of a pixel is changed only if its red, green and blue all exceeded 230, and
  then it is 0; a pixel whose alpha is not 0 after the pass has the red, green and blue it
  had before; a pixel that is keyed out reads back as transparent black, its colour lost.
\<close>

theorem C9_removeWhite:
  assumes "positive cell"
  shows "(\<forall>p. red (keyOut p) = red p \<and> green (keyOut p) = green p \<and>
              blue (keyOut p) = blue p \<and>
              (alpha (keyOut p) \<noteq> alpha p \<longrightarrow> spec_keyedOut p \<and> alpha (keyOut p) = 0)) \<and>
         (\<exists>out. removeWhite cell = Inr out \<and>
            width out = width cell \<and> height out = height cell \<and>
            (\<forall>x < width cell. \<forall>y < height cell.
               (alpha (pixelAt out x y) \<noteq> 0 \<longrightarrow>
                  red (pixelAt out x y) = red (pixelAt cell x y) \<and>
                  green (pixelAt out x y) = green (pixelAt cell x y) \<and>
                  blue (pixelAt out x y) = blue (pixelAt cell x y)) \<and>
               (alpha (pixelAt out x y) \<noteq> alpha (pixelAt cell x y) \<longrightarrow>
                  spec_keyedOut (pixelAt cell x y) \<and> alpha (pixelAt out x y) = 0) \<and>
               (spec_keyedOut (pixelAt cell x y) \<longrightarrow> pixelAt out x y = transparent)))"
proof -
  have loop: "\<forall>p. red (keyOut p) = red p \<and> green (keyOut p) = green p \<and>
              blue (keyOut p) = blue p \<and>
              (alpha (keyOut p) \<noteq> alpha p \<longrightarrow> spec_keyedOut p \<and> alpha (keyOut p) = 0)"
    by (simp add: keyOut_cases)
  have after: "\<exists>out. removeWhite cell = Inr out \<and>
            width out = width cell \<and> height out = height cell \<and>
            (\<forall>x < width cell. \<forall>y < height cell.
               (alpha (pixelAt out x y) \<noteq> 0 \<longrightarrow>
                  red (pixelAt out x y) = red (pixelAt cell x y) \<and>
                  green (pixelAt out x y) = green (pixelAt cell x y) \<and>
                  blue (pixelAt out x y) = blue (pixelAt cell x y)) \<and>
               (alpha (pixelAt out x y) \<noteq> alpha (pixelAt cell x y) \<longrightarrow>
                  spec_keyedOut (pixelAt cell x y) \<and> alpha (pixelAt out x y) = 0) \<and>
               (spec_keyedOut (pixelAt cell x y) \<longrightarrow> pixelAt out x y = transparent))"
    unfolding removeWhite_eq [OF assms]
    by (simp add: pixelAt_paint keyOut_cases) (simp add: transparent_def)
  from loop after show ?thesis by (rule conjI)
qed

subsection \<open>The sanitizing steps on the examples\<close>

lemma stripe_size [simp]: "width stripe = 10" "height stripe = 9"
  by (simp_all add: stripe_def createCanvas_def)

lemma stripe_positive: "positive stripe"
  by (simp add: positive_def)

lemma stripe_pixel:
  "x < 10 \<Longrightarrow> y < 9 \<Longrightarrow>
   pixelAt stripe x y = (if x = 4 then opaque 0 0 0 else opaque 255 255 255)"
  by (simp add: stripe_def pixelAt_paint createCanvas_def)

lemma dot2_positive: "positive dot2"
  by (simp add: positive_def dot2_def)

lemma dot2_pixels:
  "pixelAt dot2 1 0 = opaque 0 0 0" "pixelAt dot2 0 1 = opaque 255 255 255"
  by (simp_all add: pixelAt_def dot2_def)

theorem C7_sanitize_witness:
  "positive stripe \<and>
   (\<exists>out. sanitize True stripe = Inr out \<and>
      alpha (pixelAt out 0 0) = 0 \<and> alpha (pixelAt out 5 4) = 0 \<and>
      pixelAt out 4 4 = opaque 0 0 0)"
proof -
  from C7_sanitize [OF stripe_positive, of True] obtain out where
    out: "sanitize True stripe = Inr out"
    and px: "\<forall>x < width stripe. \<forall>y < height stripe.
              (spec_inMargin stripe x y \<longrightarrow> alpha (pixelAt out x y) = 0) \<and>
              (True \<and> spec_keyedOut (pixelAt stripe x y) \<longrightarrow> alpha (pixelAt out x y) = 0) \<and>
              (True \<and> spec_keyedOut (pixelAt out x y) \<longrightarrow> alpha (pixelAt out x y) = 0) \<and>
              (\<not> spec_inMargin stripe x y \<and> \<not> (True \<and> spec_keyedOut (pixelAt stripe x y)) \<longrightarrow>
                 pixelAt out x y = pixelAt stripe x y)"
    by blast
  from px [rule_format, of 0 0] have a: "alpha (pixelAt out 0 0) = 0"
    by (simp add: spec_inMargin_def)
  from px [rule_format, of 5 4] have b: "alpha (pixelAt out 5 4) = 0"
    by (simp add: stripe_pixel spec_keyedOut_def opaque_def)
  from px [rule_format, of 4 4] have c: "pixelAt out 4 4 = opaque 0 0 0"
    by (simp add: stripe_pixel spec_keyedOut_def spec_inMargin_def opaque_def)
  from stripe_positive out a b c show ?thesis by blast
qed

theorem C8_sanitize_idempotent_witness:
  "\<exists>out. sanitize False stripe = Inr out \<and> sanitize False out = Inr out"
  by (rule C8_sanitize_idempotent)

lemma dot2_removeWhite: "removeWhite dot2 = Inr dot2_keyed"
  by code_simp

lemma dot2_keyed_pixels:
  "pixelAt dot2_keyed 1 0 = opaque 0 0 0" "pixelAt dot2_keyed 0 1 = transparent"
  by (simp_all add: pixelAt_def dot2_keyed_def)

text \<open>
  C9 as stated fails: the opaque white pixel \<open>(0, 1)\<close> of \<open>dot2\<close> has red 255 before
  the removal of white and red 0 after it, on the canvas that \<^verbatim>\<open>putImageData\<close>
  leaves.
\<close>

theorem C9_counterexample:
  "positive dot2 \<and> removeWhite dot2 = Inr dot2_keyed \<and>
   red (pixelAt dot2 0 1) = 255 \<and> red (pixelAt dot2_keyed 0 1) = 0 \<and>
   red (pixelAt dot2_keyed 0 1) \<noteq> red (pixelAt dot2 0 1)"
  using dot2_positive dot2_removeWhite
  by (simp only: dot2_pixels dot2_keyed_pixels) (simp add: opaque_def transparent_def)

theorem C9_removeWhite_witness:
  "positive dot2 \<and>
   (\<exists>out. removeWhite dot2 = Inr out \<and>
      pixelAt out 1 0 = opaque 0 0 0 \<and> pixelAt out 0 1 = transparent)"
proof -
  from C9_removeWhite [OF dot2_positive] obtain out where
    out: "removeWhite dot2 = Inr out"
    and px: "\<forall>x < width dot2. \<forall>y < height dot2.
               (alpha (pixelAt out x y) \<noteq> 0 \<longrightarrow>
                  red (pixelAt out x y) = red (pixelAt dot2 x y) \<and>
                  green (pixelAt out x y) = green (pixelAt dot2 x y) \<and>
                  blue (pixelAt out x y) = blue (pixelAt dot2 x y)) \<and>
               (alpha (pixelAt out x y) \<noteq> alpha (pixelAt dot2 x y) \<longrightarrow>
                  spec_keyedOut (pixelAt dot2 x y) \<and> alpha (pixelAt out x y) = 0) \<and>
               (spec_keyedOut (pixelAt dot2 x y) \<longrightarrow> pixelAt out x y = transparent)"
    by blast
  have sz: "(1::nat) < width dot2" "(0::nat) < width dot2" "(1::nat) < height dot2" "(0::nat) < height dot2"
    by (simp_all add: dot2_def)
  have k: "\<not> spec_keyedOut (pixelAt dot2 1 0)" "spec_keyedOut (pixelAt dot2 0 1)"
    by (simp_all only: dot2_pixels spec_keyedOut_def opaque_def pixel.simps) simp_all
  have visible: "alpha (pixelAt dot2 1 0) \<noteq> 0"
    by (simp only: dot2_pixels opaque_def pixel.simps) simp
  from px [rule_format, OF sz(1) sz(4)] k(1)
  have same: "alpha (pixelAt out 1 0) = alpha (pixelAt dot2 1 0)"
    by blast
  with visible have "alpha (pixelAt out 1 0) \<noteq> 0" by simp
  with px [rule_format, OF sz(1) sz(4)]
  have "red (pixelAt out 1 0) = red (pixelAt dot2 1 0)"
       "green (pixelAt out 1 0) = green (pixelAt dot2 1 0)"
       "blue (pixelAt out 1 0) = blue (pixelAt dot2 1 0)"
    by blast+
  with same have a: "pixelAt out 1 0 = opaque 0 0 0"
    by (intro pixel.equality) (simp_all only: dot2_pixels opaque_def pixel.simps, simp)
  from px [rule_format, OF sz(2) sz(3)] k(2)
  have b: "pixelAt out 0 1 = transparent"
    by blast
  from dot2_positive out a b show ?thesis by blast
qed

section \<open>The grid loop\<close>

lemma forEachE_append:
  assumes "\<And>i s. i \<in> set js \<Longrightarrow> body i s = Inr (s @ k i)"
  shows "forEachE body js s = Inr (s @ concat (map k js))"
  using assms by (induction js arbitrary: s) simp_all

lemma nth_concat_uniform:
  assumes "\<forall>xs \<in> set xss. length xs = n" and "i < length xss" and "j < n"
  shows "concat xss ! (i * n + j) = xss ! i ! j"
  using assms
proof (induction xss arbitrary: i)
  case Nil
  then show ?case by simp
next
  case (Cons xs xss)
  show ?case
  proof (cases i)
    case 0
    with Cons.prems show ?thesis by (simp add: nth_append)
  next
    case (Suc i')
    with Cons.prems have "concat xss ! (i' * n + j) = xss ! i' ! j"
      by (intro Cons.IH) simp_all
    with Suc Cons.prems show ?thesis by (simp add: nth_append)
  qed
qed

lemma length_concat_uniform:
  "\<forall>xs \<in> set xss. length xs = n \<Longrightarrow> length (concat xss) = length xss * n"
  by (induction xss) simp_all

lemma spec_bounds_code:
  "positive cv \<Longrightarrow> getContentBounds cv (width cv) (height cv) = Inr (spec_bounds cv)"
  by (simp add: positive_def getContentBounds_eq spec_bounds_def)

lemma gridArea_spec: "gridArea cnv (spec_bounds cnv) = spec_gridArea cnv"
  by (simp add: gridArea_def spec_gridArea_def split: option.splits)

lemma tightBox_positive: "0 < box_w (spec_tightBox F)" "0 < box_h (spec_tightBox F)"
  by (simp_all add: spec_tightBox_def)

lemma gridArea_positive:
  "positive cv \<Longrightarrow> 0 < box_w (spec_gridArea cv) \<and> 0 < box_h (spec_gridArea cv)"
  by (auto simp: spec_gridArea_def spec_bounds_def positive_def tightBox_positive)

lemma cell_size_positive:
  assumes "positive cv"
  shows "0 < cols \<Longrightarrow> 0 < nat \<lceil>spec_cellW cv cols\<rceil>"
    and "0 < rows \<Longrightarrow> 0 < nat \<lceil>spec_cellH cv rows\<rceil>"
  using gridArea_positive [OF assms]
  by (simp_all add: spec_cellW_def spec_cellH_def)

lemma width_createCanvas [simp]: "width (createCanvas w h) = w"
  by (simp add: createCanvas_def)

lemma height_createCanvas [simp]: "height (createCanvas w h) = h"
  by (simp add: createCanvas_def)

lemma width_drawOnto [simp]: "width (drawOnto P src sx sy sw sh dx dy dw dh dst) = width dst"
  by (simp add: drawOnto_def)

lemma height_drawOnto [simp]: "height (drawOnto P src sx sy sw sh dx dy dw dh dst) = height dst"
  by (simp add: drawOnto_def)

lemma width_extractCell [simp]:
  "width (extractCell P cnv sx sy fw fh r c) = nat \<lceil>fw\<rceil>"
  by (simp add: extractCell_def Let_def)

lemma height_extractCell [simp]:
  "height (extractCell P cnv sx sy fw fh r c) = nat \<lceil>fh\<rceil>"
  by (simp add: extractCell_def Let_def)

lemma width_gridCell [simp]:
  "width (gridCell P cnv rows cols removeBg r c) = nat \<lceil>spec_cellW cnv cols\<rceil>"
  by (simp add: gridCell_def)

lemma height_gridCell [simp]:
  "height (gridCell P cnv rows cols removeBg r c) = nat \<lceil>spec_cellH cnv rows\<rceil>"
  by (simp add: gridCell_def)

lemma cellStep_eq:
  assumes "positive cnv" and "0 < rows" and "0 < cols"
  shows "cellStep P cnv (of_nat (box_x (spec_gridArea cnv))) (of_nat (box_y (spec_gridArea cnv)))
           (spec_cellW cnv cols) (spec_cellH cnv rows) removeBg r c acc =
         Inr (acc @ (if getContext P (nat \<lceil>spec_cellW cnv cols\<rceil>) (nat \<lceil>spec_cellH cnv rows\<rceil>)
                     then [gridCell P cnv rows cols removeBg r c] else []))"
proof -
  have "positive (extractCell P cnv (of_nat (box_x (spec_gridArea cnv)))
          (of_nat (box_y (spec_gridArea cnv))) (spec_cellW cnv cols) (spec_cellH cnv rows) r c)"
    using cell_size_positive [OF assms(1)] assms(2,3) by (simp add: positive_def)
  then show ?thesis
    by (simp add: cellStep_def sanitize_eq gridCell_def)
qed

lemma rawCanvasesOf_eq:
  assumes "positive cnv"
  shows "rawCanvasesOf P cnv rows cols removeBg = Inr (rawCells P cnv rows cols removeBg)"
proof -
  let ?ok = "getContext P (nat \<lceil>spec_cellW cnv cols\<rceil>) (nat \<lceil>spec_cellH cnv rows\<rceil>)"
  let ?k = "\<lambda>r c. if ?ok then [gridCell P cnv rows cols removeBg r c] else []"
  let ?step = "cellStep P cnv (of_nat (box_x (spec_gridArea cnv)))
                 (of_nat (box_y (spec_gridArea cnv))) (spec_cellW cnv cols) (spec_cellH cnv rows)
                 removeBg"
  have inner: "forEachE (?step r) [0..<cols] acc = Inr (acc @ concat (map (?k r) [0..<cols]))"
    if "r \<in> set [0..<rows]" for r acc
  proof (rule forEachE_append)
    fix c s assume "c \<in> set [0..<cols]"
    with that have "0 < rows" "0 < cols" by auto
    then show "?step r c s = Inr (s @ ?k r c)"
      by (rule cellStep_eq [OF assms])
  qed
  have "forEachE (\<lambda>r. forEachE (?step r) [0..<cols]) [0..<rows] [] =
        Inr ([] @ concat (map (\<lambda>r. concat (map (?k r) [0..<cols])) [0..<rows]))"
    by (rule forEachE_append) (rule inner)
  moreover have "concat (map (\<lambda>r. concat (map (?k r) [0..<cols])) [0..<rows]) =
                 rawCells P cnv rows cols removeBg"
    by (simp add: rawCells_def)
  ultimately show ?thesis
    by (simp add: rawCanvasesOf_def spec_bounds_code [OF assms] gridArea_spec Let_def
          spec_cellW_def spec_cellH_def)
qed

lemma length_rawCells:
  "getContext P (nat \<lceil>spec_cellW cnv cols\<rceil>) (nat \<lceil>spec_cellH cnv rows\<rceil>) \<Longrightarrow>
   length (rawCells P cnv rows cols removeBg) = rows * cols"
  by (simp add: rawCells_def length_concat_uniform [where n = cols])

lemma nth_rawCells:
  assumes "getContext P (nat \<lceil>spec_cellW cnv cols\<rceil>) (nat \<lceil>spec_cellH cnv rows\<rceil>)"
    and "r < rows" and "c < cols"
  shows "rawCells P cnv rows cols removeBg ! (r * cols + c) = gridCell P cnv rows cols removeBg r c"
  using assms by (simp add: rawCells_def nth_concat_uniform [where n = cols])

lemma set_rawCells:
  "cell \<in> set (rawCells P cnv rows cols removeBg) \<Longrightarrow>
   \<exists>r < rows. \<exists>c < cols. cell = gridCell P cnv rows cols removeBg r c"
  by (fastforce simp: rawCells_def split: if_splits)

text \<open>
  C3. For a raster of positive size, \<open>rows \<ge> 1\<close> and \<open>cols \<ge> 1\<close>, on a platform that
  provides every context, the loop of \<^verbatim>\<open>performFixedGridSlicing\<close> builds exactly
  \<open>rows \<times> cols\<close> cells in row-major order. The grid area is the global content box, or
  the whole raster when there is no content; the cell at row \<open>r\<close>, column \<open>c\<close> is the
  sanitized result of drawing the source rectangle at offset
  \<open>(gridArea.x + c * cellW, gridArea.y + r * cellH)\<close> of size \<open>cellW \<times> cellH\<close>, with
  \<open>cellW = gridAreaWidth / cols\<close> and \<open>cellH = gridAreaHeight / rows\<close>, onto a fresh canvas
  of size \<open>ceil(cellW) \<times> ceil(cellH)\<close>, which is the size of every cell.
\<close>

theorem C3_grid_partition:
  assumes "positive cnv" and "1 \<le> rows" and "1 \<le> cols" and "contextsAvailable P"
  shows "\<exists>cells. rawCanvasesOf P cnv rows cols removeBg = Inr cells \<and>
           length cells = rows * cols \<and>
           (\<forall>r < rows. \<forall>c < cols.
              width (cells ! (r * cols + c)) = nat \<lceil>spec_cellW cnv cols\<rceil> \<and>
              height (cells ! (r * cols + c)) = nat \<lceil>spec_cellH cnv rows\<rceil> \<and>
              sanitize removeBg
                (drawOnto P cnv
                   (of_nat (box_x (spec_gridArea cnv)) + of_nat c * spec_cellW cnv cols)
                   (of_nat (box_y (spec_gridArea cnv)) + of_nat r * spec_cellH cnv rows)
                   (spec_cellW cnv cols) (spec_cellH cnv rows)
                   0 0 (of_nat (nat \<lceil>spec_cellW cnv cols\<rceil>))
                       (of_nat (nat \<lceil>spec_cellH cnv rows\<rceil>))
                   (createCanvas (nat \<lceil>spec_cellW cnv cols\<rceil>)
                                 (nat \<lceil>spec_cellH cnv rows\<rceil>)))
              = Inr (cells ! (r * cols + c)))"
proof -
  let ?W = "nat \<lceil>spec_cellW cnv cols\<rceil>" and ?H = "nat \<lceil>spec_cellH cnv rows\<rceil>"
  let ?raw = "\<lambda>r c. drawOnto P cnv
                   (of_nat (box_x (spec_gridArea cnv)) + of_nat c * spec_cellW cnv cols)
                   (of_nat (box_y (spec_gridArea cnv)) + of_nat r * spec_cellH cnv rows)
                   (spec_cellW cnv cols) (spec_cellH cnv rows)
                   0 0 (of_nat ?W) (of_nat ?H) (createCanvas ?W ?H)"
  from assms(4) have ok: "getContext P ?W ?H"
    by (simp add: contextsAvailable_def)
  from assms(2,3) have pos: "0 < rows" "0 < cols" by simp_all
  have raw: "extractCell P cnv (of_nat (box_x (spec_gridArea cnv)))
               (of_nat (box_y (spec_gridArea cnv))) (spec_cellW cnv cols) (spec_cellH cnv rows) r c
             = ?raw r c" for r c
    by (simp add: extractCell_def Let_def)
  have "positive (?raw r c)" for r c
    using cell_size_positive [OF assms(1)] pos by (simp add: positive_def)
  then have san: "sanitize removeBg (?raw r c) = Inr (gridCell P cnv rows cols removeBg r c)"
    for r c
    by (simp add: sanitize_eq gridCell_def raw)
  have cells: "\<forall>r < rows. \<forall>c < cols.
                 width (rawCells P cnv rows cols removeBg ! (r * cols + c)) = ?W \<and>
                 height (rawCells P cnv rows cols removeBg ! (r * cols + c)) = ?H \<and>
                 sanitize removeBg (?raw r c)
                   = Inr (rawCells P cnv rows cols removeBg ! (r * cols + c))"
    by (simp add: nth_rawCells [OF ok] san)
  show ?thesis
    by (rule exI [of _ "rawCells P cnv rows cols removeBg"])
       (rule conjI [OF rawCanvasesOf_eq [OF assms(1)]],
        rule conjI [OF length_rawCells [OF ok]], rule cells)
qed

lemma nearest_contexts: "contextsAvailable nearest"
  by (simp add: contextsAvailable_def nearest_def)

lemma dot2_bounds: "spec_bounds dot2 = Some \<lparr>box_x = 1, box_y = 0, box_w = 1, box_h = 1\<rparr>"
proof -
  have "width dot2 = 2" "height dot2 = 2" by (simp_all add: dot2_def)
  then show ?thesis
    by (simp only: spec_bounds_def dot2_foreground)
       (simp add: spec_tightBox_def)
qed

lemma ceiling_half: "\<lceil>(1::rat) / 2\<rceil> = 1"
  by (rule ceiling_unique) simp_all

lemma dot2_cell_size: "nat \<lceil>spec_cellW dot2 2\<rceil> = 1" "nat \<lceil>spec_cellH dot2 1\<rceil> = 1"
  by (simp_all add: spec_cellW_def spec_cellH_def spec_gridArea_def dot2_bounds ceiling_half)

theorem C3_grid_partition_witness:
  "positive dot2 \<and> (1::nat) \<le> 1 \<and> (1::nat) \<le> 2 \<and> contextsAvailable nearest \<and>
   (\<exists>cells. rawCanvasesOf nearest dot2 1 2 False = Inr cells \<and> length cells = 2 \<and>
      width (cells ! 0) = 1 \<and> height (cells ! 0) = 1 \<and>
      width (cells ! 1) = 1 \<and> height (cells ! 1) = 1)"
proof -
  have r: "(1::nat) \<le> 1" and c: "(1::nat) \<le> 2" by simp_all
  from C3_grid_partition [OF dot2_positive r c nearest_contexts, of False]
  obtain cells where
    eq: "rawCanvasesOf nearest dot2 1 2 False = Inr cells" and len: "length cells = 1 * 2"
    and sz: "\<forall>r < 1. \<forall>c < 2.
              width (cells ! (r * 2 + c)) = nat \<lceil>spec_cellW dot2 2\<rceil> \<and>
              height (cells ! (r * 2 + c)) = nat \<lceil>spec_cellH dot2 1\<rceil> \<and>
              sanitize False
                (drawOnto nearest dot2
                   (of_nat (box_x (spec_gridArea dot2)) + of_nat c * spec_cellW dot2 2)
                   (of_nat (box_y (spec_gridArea dot2)) + of_nat r * spec_cellH dot2 1)
                   (spec_cellW dot2 2) (spec_cellH dot2 1)
                   0 0 (of_nat (nat \<lceil>spec_cellW dot2 2\<rceil>))
                       (of_nat (nat \<lceil>spec_cellH dot2 1\<rceil>))
                   (createCanvas (nat \<lceil>spec_cellW dot2 2\<rceil>)
                                 (nat \<lceil>spec_cellH dot2 1\<rceil>)))
              = Inr (cells ! (r * 2 + c))"
    by blast
  have z: "(0::nat) < 1" "(0::nat) < 2" "(1::nat) < 2" by simp_all
  from sz [rule_format, OF z(1) z(2)]
  have "width (cells ! (0 * 2 + 0)) = 1 \<and> height (cells ! (0 * 2 + 0)) = 1"
    unfolding dot2_cell_size by blast
  then have a: "width (cells ! 0) = 1 \<and> height (cells ! 0) = 1" by simp
  from sz [rule_format, OF z(1) z(3)]
  have "width (cells ! (0 * 2 + 1)) = 1 \<and> height (cells ! (0 * 2 + 1)) = 1"
    unfolding dot2_cell_size by blast
  then have b: "width (cells ! 1) = 1 \<and> height (cells ! 1) = 1" by simp
  from len have "length cells = 2" by simp
  with dot2_positive r c nearest_contexts eq a b show ?thesis by blast
qed

section \<open>Aligning the frames\<close>

lemma mapE_Inr:
  assumes "\<And>x. x \<in> set xs \<Longrightarrow> f x = Inr (g x)"
  shows "mapE f xs = Inr (map g xs)"
  using assms by (induction xs) simp_all

lemma frameBounds_eq:
  "positive frame \<Longrightarrow> frameBounds P frame = Inr (detected P frame)"
  by (simp add: frameBounds_def detected_def spec_bounds_code)

lemma fold_renderFrame:
  "fold (renderFrame P finalW finalH) fbs acc =
     (if getContext P finalW finalH then acc @ map (rendered P finalW finalH) fbs else acc)"
  by (induction fbs arbitrary: acc)
     (simp_all add: renderFrame_def rendered_def Let_def split: option.splits)

lemma alignAndMaximizeFrames_eq:
  assumes "\<forall>f \<in> set frames. positive f"
  shows "alignAndMaximizeFrames P frames = Inr (aligned P frames)"
proof -
  have "mapE (frameBounds P) frames = Inr (map (detected P) frames)"
    using assms by (intro mapE_Inr frameBounds_eq) simp
  then show ?thesis
    by (simp add: alignAndMaximizeFrames_def aligned_def Let_def padding_def fold_renderFrame)
qed

lemma finite_somes [simp]: "finite (Some -` set bs)"
  by (simp add: finite_vimageI)

lemma fold_maxContent:
  "fold (\<lambda>b (maxContentW, maxContentH).
             case b of
               None \<Rightarrow> (maxContentW, maxContentH)
             | Some bb \<Rightarrow> (max maxContentW (box_w bb), max maxContentH (box_h bb)))
        bs (a, b) =
   (Max (insert a (box_w ` (Some -` set bs))), Max (insert b (box_h ` (Some -` set bs))))"
proof (induction bs arbitrary: a b)
  case Nil
  show ?case by simp
next
  case (Cons x bs)
  show ?case
  proof (cases x)
    case None
    have "Some -` set (None # bs) = Some -` set bs" by auto
    with None Cons.IH [of a b] show ?thesis by simp
  next
    case (Some bb)
    let ?S = "Some -` set bs"
    have eqw: "box_w ` (Some -` set (x # bs)) = insert (box_w bb) (box_w ` ?S)"
      and eqh: "box_h ` (Some -` set (x # bs)) = insert (box_h bb) (box_h ` ?S)"
      using Some by auto
    have w: "Max (insert (max a (box_w bb)) (box_w ` ?S)) =
             Max (insert a (insert (box_w bb) (box_w ` ?S)))"
      by (cases "?S = {}") (simp_all add: max.assoc)
    have h: "Max (insert (max b (box_h bb)) (box_h ` ?S)) =
             Max (insert b (insert (box_h bb) (box_h ` ?S)))"
      by (cases "?S = {}") (simp_all add: max.assoc)
    have "fold (\<lambda>b (maxContentW, maxContentH).
             case b of
               None \<Rightarrow> (maxContentW, maxContentH)
             | Some bb \<Rightarrow> (max maxContentW (box_w bb), max maxContentH (box_h bb)))
            (x # bs) (a, b) =
          (Max (insert (max a (box_w bb)) (box_w ` ?S)),
           Max (insert (max b (box_h bb)) (box_h ` ?S)))"
      using Some Cons.IH [of "max a (box_w bb)" "max b (box_h bb)"] by simp
    then show ?thesis
      by (simp only: w h eqw eqh)
  qed
qed

lemma maxContent_eq:
  "maxContent bs =
     (Max (insert 0 (box_w ` (Some -` set bs))), Max (insert 0 (box_h ` (Some -` set bs))))"
  unfolding maxContent_def by (rule fold_maxContent)

lemma maxContent_none:
  "\<forall>b \<in> set bs. b = None \<Longrightarrow> maxContent bs = (0, 0)"
proof -
  assume "\<forall>b \<in> set bs. b = None"
  then have "Some -` set bs = {}" by auto
  then show ?thesis by (simp add: maxContent_eq)
qed

lemma maxContent_some:
  assumes "Some -` set bs \<noteq> {}"
  shows "maxContent bs = (Max (box_w ` (Some -` set bs)), Max (box_h ` (Some -` set bs)))"
  using assms by (simp add: maxContent_eq)

lemma spec_bounds_positive:
  "spec_bounds f = Some b \<Longrightarrow> 0 < box_w b \<and> 0 < box_h b"
  by (auto simp: spec_bounds_def tightBox_positive split: if_splits)

lemma somes_spec_bounds:
  "set (List.map_filter spec_bounds frames) = Some -` set (map spec_bounds frames)"
  by (induction frames) (auto split: option.splits)

lemma maxContent_spec:
  assumes "\<exists>f \<in> set frames. spec_bounds f \<noteq> None"
  shows "maxContent (map spec_bounds frames) = (spec_maxW frames, spec_maxH frames)"
    and "0 < spec_maxW frames" and "0 < spec_maxH frames"
proof -
  let ?S = "Some -` set (map spec_bounds frames)"
  from assms obtain f b where f: "f \<in> set frames" "spec_bounds f = Some b" by auto
  then have b: "b \<in> ?S" by (auto simp: image_iff) (metis)
  then have ne: "?S \<noteq> {}" by auto
  show "maxContent (map spec_bounds frames) = (spec_maxW frames, spec_maxH frames)"
    by (simp only: maxContent_some [OF ne] spec_maxW_def spec_maxH_def
          somes_spec_bounds set_map)
  have "box_w b \<le> Max (box_w ` ?S)" "box_h b \<le> Max (box_h ` ?S)"
    using b by (simp_all del: set_map)
  moreover have "0 < box_w b" "0 < box_h b"
    using spec_bounds_positive [OF f(2)] by simp_all
  ultimately show "0 < spec_maxW frames" "0 < spec_maxH frames"
    by (simp_all only: spec_maxW_def spec_maxH_def somes_spec_bounds set_map)
qed

lemma detected_spec:
  "\<forall>f \<in> set frames. getContext P (width f) (height f) \<Longrightarrow>
   map (detected P) frames = map spec_bounds frames"
  by (simp add: detected_def)

lemma width_rendered [simp]: "width (rendered P finalW finalH fb) = finalW"
  by (simp add: rendered_def split: option.splits)

lemma height_rendered [simp]: "height (rendered P finalW finalH fb) = finalH"
  by (simp add: rendered_def split: option.splits)

lemma aligned_spec:
  assumes "\<forall>f \<in> set frames. getContext P (width f) (height f)"
    and "\<exists>f \<in> set frames. spec_bounds f \<noteq> None"
  shows "aligned P frames =
           (if getContext P (spec_maxW frames + 4) (spec_maxH frames + 4)
            then map (rendered P (spec_maxW frames + 4) (spec_maxH frames + 4))
                   (zip frames (map spec_bounds frames))
            else [])"
  using maxContent_spec [OF assms(2)]
  by (simp add: aligned_def detected_spec [OF assms(1)] Let_def)

lemma aligned_empty:
  assumes "\<forall>f \<in> set frames. detected P f = None"
  shows "aligned P frames = []"
proof -
  have "maxContent (map (detected P) frames) = (0, 0)"
    using assms by (intro maxContent_none) simp
  then show ?thesis by (simp add: aligned_def)
qed

lemma pixelAt_createCanvas [simp]: "pixelAt (createCanvas w h) x y = transparent"
  by (simp add: pixelAt_def createCanvas_def idx_lt)

text \<open>
  C4. For a sequence of cells of positive size of which at least one has detected content,
  on a platform that provides every context, \<^verbatim>\<open>alignAndMaximizeFrames\<close> returns one
  frame per cell, and every frame has width \<open>maxW + 2 * pad\<close> and height
  \<open>maxH + 2 * pad\<close> with \<open>pad = 2\<close>, where \<open>maxW\<close> and \<open>maxH\<close> are the maxima of the
  detected content widths and heights over the non-empty cells.
\<close>

theorem C4_uniform_frame_size:
  assumes "contextsAvailable P" and "\<forall>f \<in> set frames. positive f"
    and "\<exists>f \<in> set frames. spec_bounds f \<noteq> None"
  shows "\<exists>out. alignAndMaximizeFrames P frames = Inr out \<and>
           length out = length frames \<and>
           (\<forall>g \<in> set out. width g = spec_maxW frames + 2 * 2 \<and>
                            height g = spec_maxH frames + 2 * 2)"
proof -
  from assms(1) have ctx: "\<forall>f \<in> set frames. getContext P (width f) (height f)"
    and final: "getContext P (spec_maxW frames + 4) (spec_maxH frames + 4)"
    by (simp_all add: contextsAvailable_def)
  have out: "aligned P frames =
               map (rendered P (spec_maxW frames + 4) (spec_maxH frames + 4))
                 (zip frames (map spec_bounds frames))"
    using aligned_spec [OF ctx assms(3)] final by simp
  have "length (aligned P frames) = length frames"
    and "\<forall>g \<in> set (aligned P frames).
           width g = spec_maxW frames + 2 * 2 \<and> height g = spec_maxH frames + 2 * 2"
    unfolding out by auto
  with alignAndMaximizeFrames_eq [OF assms(2), of P] show ?thesis
    by blast
qed

text \<open>
  C6. For a sequence of cells of positive size of which at least one has detected content,
  on a platform that provides every context, every cell keeps its position in the result
  of \<^verbatim>\<open>alignAndMaximizeFrames\<close>: the result has one frame per cell, every frame has
  the uniform size, and the frame of a cell without detected content is the fully
  transparent canvas of that size.
\<close>

theorem C6_empty_cells_kept:
  assumes "contextsAvailable P" and "\<forall>f \<in> set frames. positive f"
    and "\<exists>f \<in> set frames. spec_bounds f \<noteq> None"
  shows "\<exists>out. alignAndMaximizeFrames P frames = Inr out \<and>
           length out = length frames \<and>
           (\<forall>i < length frames.
              width (out ! i) = spec_maxW frames + 2 * 2 \<and>
              height (out ! i) = spec_maxH frames + 2 * 2 \<and>
              (spec_bounds (frames ! i) = None \<longrightarrow>
                 out ! i = createCanvas (spec_maxW frames + 2 * 2) (spec_maxH frames + 2 * 2) \<and>
                 (\<forall>x y. pixelAt (out ! i) x y = transparent)))"
proof -
  from assms(1) have ctx: "\<forall>f \<in> set frames. getContext P (width f) (height f)"
    and final: "getContext P (spec_maxW frames + 4) (spec_maxH frames + 4)"
    by (simp_all add: contextsAvailable_def)
  have out: "aligned P frames =
               map (rendered P (spec_maxW frames + 4) (spec_maxH frames + 4))
                 (zip frames (map spec_bounds frames))"
    using aligned_spec [OF ctx assms(3)] final by simp
  have len: "length (aligned P frames) = length frames"
    unfolding out by simp
  have each: "\<forall>i < length frames.
              width (aligned P frames ! i) = spec_maxW frames + 2 * 2 \<and>
              height (aligned P frames ! i) = spec_maxH frames + 2 * 2 \<and>
              (spec_bounds (frames ! i) = None \<longrightarrow>
                 aligned P frames ! i =
                   createCanvas (spec_maxW frames + 2 * 2) (spec_maxH frames + 2 * 2) \<and>
                 (\<forall>x y. pixelAt (aligned P frames ! i) x y = transparent))"
    unfolding out by (simp add: rendered_def split: option.splits)
  show ?thesis
    by (rule exI [of _ "aligned P frames"])
       (rule conjI [OF alignAndMaximizeFrames_eq [OF assms(2)]], rule conjI [OF len], rule each)
qed

lemma blank_bounds: "spec_bounds blank1 = None"
  by (simp add: blank1_def spec_bounds_def spec_foregroundSet_def spec_foreground_def
        transparent_def)

lemma blank1_positive: "positive blank1"
  by (simp add: positive_def blank1_def)

lemma dot2_content: "spec_bounds dot2 \<noteq> None"
  by (simp add: dot2_bounds)

lemma pair_positive: "\<forall>f \<in> set pair. positive f"
  using dot2_positive blank1_positive by (simp add: pair_def)

lemma pair_content: "\<exists>f \<in> set pair. spec_bounds f \<noteq> None"
  using dot2_content by (simp add: pair_def)

lemma pair_max: "spec_maxW pair + 2 * 2 = 5" "spec_maxH pair + 2 * 2 = 5"
  by (simp_all add: pair_def spec_maxW_def spec_maxH_def dot2_bounds blank_bounds)

lemma pair_length: "length pair = 2" "1 < length pair" "pair ! 1 = blank1"
  by (simp_all add: pair_def)

theorem C4_uniform_frame_size_witness:
  "contextsAvailable nearest \<and> positive dot2 \<and> positive blank1 \<and>
   spec_bounds dot2 \<noteq> None \<and>
   (\<exists>out. alignAndMaximizeFrames nearest pair = Inr out \<and>
      length out = 2 \<and> (\<forall>g \<in> set out. width g = 5 \<and> height g = 5))"
proof -
  from C4_uniform_frame_size [OF nearest_contexts pair_positive pair_content]
  have "\<exists>out. alignAndMaximizeFrames nearest pair = Inr out \<and>
      length out = 2 \<and> (\<forall>g \<in> set out. width g = 5 \<and> height g = 5)"
    unfolding pair_max pair_length .
  with nearest_contexts dot2_positive blank1_positive dot2_content show ?thesis
    by (intro conjI)
qed

theorem C6_empty_cells_kept_witness:
  "contextsAvailable nearest \<and> positive dot2 \<and> positive blank1 \<and>
   spec_bounds dot2 \<noteq> None \<and> spec_bounds blank1 = None \<and>
   (\<exists>out. alignAndMaximizeFrames nearest pair = Inr out \<and>
      length out = 2 \<and> out ! 1 = createCanvas 5 5)"
proof -
  from C6_empty_cells_kept [OF nearest_contexts pair_positive pair_content]
  obtain out where
    eq: "alignAndMaximizeFrames nearest pair = Inr out"
    and len: "length out = length pair"
    and each: "\<forall>i < length pair.
              width (out ! i) = spec_maxW pair + 2 * 2 \<and>
              height (out ! i) = spec_maxH pair + 2 * 2 \<and>
              (spec_bounds (pair ! i) = None \<longrightarrow>
                 out ! i = createCanvas (spec_maxW pair + 2 * 2) (spec_maxH pair + 2 * 2) \<and>
                 (\<forall>x y. pixelAt (out ! i) x y = transparent))"
    by blast
  from each [rule_format, OF pair_length(2)] have "out ! 1 = createCanvas 5 5"
    unfolding pair_max pair_length using blank_bounds by blast
  moreover from len have "length out = 2" by (simp only: pair_length)
  ultimately show ?thesis
    using nearest_contexts dot2_positive blank1_positive dot2_content blank_bounds eq by blast
qed

section \<open>The whole pipeline\<close>

lemma rawCells_positive:
  assumes "positive cnv" and "cell \<in> set (rawCells P cnv rows cols removeBg)"
  shows "positive cell"
proof -
  from set_rawCells [OF assms(2)] obtain r c where
    rc: "r < rows" "c < cols" "cell = gridCell P cnv rows cols removeBg r c"
    by blast
  then have "0 < rows" "0 < cols" by simp_all
  with cell_size_positive [OF assms(1)] rc(3) show ?thesis
    by (simp add: positive_def)
qed

lemma performFixedGridSlicing_eq:
  assumes "positive img"
  shows "performFixedGridSlicing P img rows cols removeBg =
           Inr (if getContext P (width img) (height img)
                then aligned P (rawCells P img rows cols removeBg) else [])"
proof -
  have "\<forall>f \<in> set (rawCells P img rows cols removeBg). positive f"
    using rawCells_positive [OF assms] by blast
  then have "alignAndMaximizeFrames P (rawCells P img rows cols removeBg) =
             Inr (aligned P (rawCells P img rows cols removeBg))"
    by (rule alignAndMaximizeFrames_eq)
  then show ?thesis
    by (simp add: performFixedGridSlicing_def rawCanvasesOf_eq [OF assms])
qed

lemma sliceSpriteSheet_eq:
  assumes "positive img"
  shows "sliceSpriteSheet P (Some img) rows cols removeBg =
           Inr (if getContext P (width img) (height img)
                then aligned P (rawCells P img rows cols removeBg) else [])"
  by (simp add: sliceSpriteSheet_def performFixedGridSlicing_eq [OF assms])

lemma sliceSpriteSheet_None: "sliceSpriteSheet P None rows cols removeBg = Inr []"
  by (simp add: sliceSpriteSheet_def)

lemma aligned_no_content:
  assumes "\<forall>f \<in> set frames. spec_bounds f = None"
  shows "aligned P frames = []"
  using assms by (intro aligned_empty) (simp add: detected_def)

lemma aligned_content:
  assumes "contextsAvailable P" and "\<exists>f \<in> set frames. spec_bounds f \<noteq> None"
  shows "length (aligned P frames) = length frames"
proof -
  from assms(1) have ctx: "\<forall>f \<in> set frames. getContext P (width f) (height f)"
    and final: "getContext P (spec_maxW frames + 4) (spec_maxH frames + 4)"
    by (simp_all add: contextsAvailable_def)
  show ?thesis
    using aligned_spec [OF ctx assms(2)] final by simp
qed

lemma transparent_background: "\<not> spec_foreground transparent"
  by (simp add: spec_foreground_def transparent_def)

lemma cleared_bounds:
  assumes "\<forall>x y. pixelAt cv x y = transparent"
  shows "spec_bounds cv = None"
proof -
  have "spec_foregroundSet cv (width cv) (height cv) = {}"
    using assms by (auto simp: spec_foregroundSet_def transparent_background)
  then show ?thesis by (simp add: spec_bounds_def)
qed

lemma small_cell_cleared:
  assumes "width cell \<le> 8 \<or> height cell \<le> 8"
  shows "pixelAt (sanitized removeBg cell) x y = transparent"
proof (cases "x < width cell \<and> y < height cell")
  case True
  with assms have "spec_inMargin cell x y"
    by (auto simp: spec_inMargin_def)
  with True show ?thesis by (simp add: pixelAt_sanitized)
next
  case False
  then show ?thesis by (intro pixelAt_outside) simp
qed

lemma small_gridCell_cleared:
  assumes "\<lceil>spec_cellW img cols\<rceil> \<le> 8 \<or> \<lceil>spec_cellH img rows\<rceil> \<le> 8"
  shows "pixelAt (gridCell P img rows cols removeBg r c) x y = transparent"
proof -
  from assms have "nat \<lceil>spec_cellW img cols\<rceil> \<le> 8 \<or> nat \<lceil>spec_cellH img rows\<rceil> \<le> 8"
    by (auto simp: nat_le_iff)
  then show ?thesis
    unfolding gridCell_def by (intro small_cell_cleared) simp
qed

text \<open>
  A decode failure resolves with the empty sequence. For a decoded image of positive
  size \<^verbatim>\<open>sliceSpriteSheet\<close> always resolves (no exception leaves the handler), and it
  resolves with the empty sequence when no cell of \<^verbatim>\<open>rawCanvases\<close> has foreground
  content.
\<close>

lemma sliceSpriteSheet_resolves:
  assumes "positive img"
  shows "sliceSpriteSheet P None rows cols removeBg = Inr [] \<and>
         (\<exists>frames. sliceSpriteSheet P (Some img) rows cols removeBg = Inr frames) \<and>
         (\<exists>cells. rawCanvasesOf P img rows cols removeBg = Inr cells \<and>
            ((\<forall>cell \<in> set cells. spec_bounds cell = None) \<longrightarrow>
               sliceSpriteSheet P (Some img) rows cols removeBg = Inr []))"
proof -
  have "(\<forall>cell \<in> set (rawCells P img rows cols removeBg). spec_bounds cell = None) \<longrightarrow>
          sliceSpriteSheet P (Some img) rows cols removeBg = Inr []"
    by (simp add: sliceSpriteSheet_eq [OF assms] aligned_no_content)
  with rawCanvasesOf_eq [OF assms, of P rows cols removeBg]
  have "\<exists>cells. rawCanvasesOf P img rows cols removeBg = Inr cells \<and>
            ((\<forall>cell \<in> set cells. spec_bounds cell = None) \<longrightarrow>
               sliceSpriteSheet P (Some img) rows cols removeBg = Inr [])"
    by blast
  moreover have "\<exists>frames. sliceSpriteSheet P (Some img) rows cols removeBg = Inr frames"
    by (simp add: sliceSpriteSheet_eq [OF assms])
  ultimately show ?thesis
    using sliceSpriteSheet_None by blast
qed


text \<open>
  C10. For a decoded image of positive size whose cells are at most 8 px wide or at most
  8 px high, the edge shave clears every pixel of every cell, and
  \<^verbatim>\<open>sliceSpriteSheet\<close> resolves with the empty sequence, whatever the image contains.
\<close>

theorem C10_small_cells_empty:
  assumes "positive img" and "1 \<le> rows" and "1 \<le> cols"
    and "\<lceil>spec_cellW img cols\<rceil> \<le> 8 \<or> \<lceil>spec_cellH img rows\<rceil> \<le> 8"
  shows "sliceSpriteSheet P (Some img) rows cols removeBg = Inr [] \<and>
         (\<exists>cells. rawCanvasesOf P img rows cols removeBg = Inr cells \<and>
            (\<forall>cell \<in> set cells. \<forall>x y. pixelAt cell x y = transparent))"
proof -
  have clear: "\<forall>cell \<in> set (rawCells P img rows cols removeBg).
                 \<forall>x y. pixelAt cell x y = transparent"
    using small_gridCell_cleared [OF assms(4)] by (auto dest!: set_rawCells)
  then have "\<forall>cell \<in> set (rawCells P img rows cols removeBg). spec_bounds cell = None"
    by (simp add: cleared_bounds)
  then have "sliceSpriteSheet P (Some img) rows cols removeBg = Inr []"
    by (simp add: sliceSpriteSheet_eq [OF assms(1)] aligned_no_content)
  with rawCanvasesOf_eq [OF assms(1), of P rows cols removeBg] clear show ?thesis
    by blast
qed

text \<open>
  C1, as amended. A decode failure gives the empty sequence. For a decoded image of
  positive size, \<open>rows \<ge> 1\<close> and \<open>cols \<ge> 1\<close>, on a platform that provides every context,
  \<^verbatim>\<open>sliceSpriteSheet\<close> returns exactly \<open>rows \<times> cols\<close> frames when at least one
  sanitized cell has detected content, and the empty sequence when none has.
\<close>

theorem C1_frame_count:
  assumes "positive img" and "1 \<le> rows" and "1 \<le> cols" and "contextsAvailable P"
  shows "sliceSpriteSheet P None rows cols removeBg = Inr [] \<and>
         (\<exists>cells frames.
            rawCanvasesOf P img rows cols removeBg = Inr cells \<and>
            sliceSpriteSheet P (Some img) rows cols removeBg = Inr frames \<and>
            ((\<exists>cell \<in> set cells. spec_bounds cell \<noteq> None) \<longrightarrow> length frames = rows * cols) \<and>
            ((\<forall>cell \<in> set cells. spec_bounds cell = None) \<longrightarrow> frames = []))"
proof -
  let ?cells = "rawCells P img rows cols removeBg"
  from assms(4) have ctx: "getContext P (width img) (height img)"
    and cell: "getContext P (nat \<lceil>spec_cellW img cols\<rceil>) (nat \<lceil>spec_cellH img rows\<rceil>)"
    by (simp_all add: contextsAvailable_def)
  have eq: "sliceSpriteSheet P (Some img) rows cols removeBg = Inr (aligned P ?cells)"
    using ctx by (simp add: sliceSpriteSheet_eq [OF assms(1)])
  have some: "(\<exists>cell \<in> set ?cells. spec_bounds cell \<noteq> None) \<longrightarrow>
                length (aligned P ?cells) = rows * cols"
    using aligned_content [OF assms(4)] length_rawCells [OF cell] by auto
  have none: "(\<forall>cell \<in> set ?cells. spec_bounds cell = None) \<longrightarrow> aligned P ?cells = []"
    by (simp add: aligned_no_content)
  from rawCanvasesOf_eq [OF assms(1), of P rows cols removeBg] eq some none
  have "\<exists>cells frames.
            rawCanvasesOf P img rows cols removeBg = Inr cells \<and>
            sliceSpriteSheet P (Some img) rows cols removeBg = Inr frames \<and>
            ((\<exists>cell \<in> set cells. spec_bounds cell \<noteq> None) \<longrightarrow> length frames = rows * cols) \<and>
            ((\<forall>cell \<in> set cells. spec_bounds cell = None) \<longrightarrow> frames = [])"
    by blast
  with sliceSpriteSheet_None show ?thesis by blast
qed

subsection \<open>The pipeline on the examples\<close>

lemma white9_positive: "positive white9"
  by (simp add: positive_def white9_def)

lemma black9_positive: "positive black9"
  by (simp add: positive_def black9_def)

lemma white9_slice: "sliceSpriteSheet nearest (Some white9) 1 1 False = Inr []"
  by code_simp

lemma white9_cells:
  "(case rawCanvasesOf nearest white9 1 1 False of
      Inr cells \<Rightarrow> list_all (\<lambda>cell. spec_bounds cell = None) cells
    | Inl e \<Rightarrow> False)"
  by code_simp

lemma black9_cells:
  "(case rawCanvasesOf nearest black9 1 1 False of
      Inr cells \<Rightarrow> list_ex (\<lambda>cell. spec_bounds cell \<noteq> None) cells
    | Inl e \<Rightarrow> False)"
  by code_simp

text \<open>
  C1 as stated fails: the decoded opaque white \<open>9 \<times> 9\<close> image with a \<open>1 \<times> 1\<close> grid
  resolves with the empty sequence, not with \<open>rows \<times> cols = 1\<close> frame. The pixel
  \<open>(4, 4)\<close> survives the edge shave, but it is white, so no cell has content and the guard
  on \<^verbatim>\<open>maxContentW\<close> and \<^verbatim>\<open>maxContentH\<close> returns the empty list.
\<close>

theorem C1_counterexample:
  "positive white9 \<and> contextsAvailable nearest \<and>
   sliceSpriteSheet nearest (Some white9) 1 1 False = Inr [] \<and>
   length ([] :: canvas list) \<noteq> 1 * 1"
  using white9_positive nearest_contexts white9_slice by simp

theorem C1_frame_count_witness:
  "positive black9 \<and> positive white9 \<and> (1::nat) \<le> 1 \<and> contextsAvailable nearest \<and>
   (\<exists>frames. sliceSpriteSheet nearest (Some black9) 1 1 False = Inr frames \<and>
      length frames = 1) \<and>
   sliceSpriteSheet nearest (Some white9) 1 1 False = Inr []"
proof -
  have one: "(1::nat) \<le> 1" by simp
  from C1_frame_count [OF black9_positive one one nearest_contexts, of False]
  obtain cells frames where
    cells: "rawCanvasesOf nearest black9 1 1 False = Inr cells"
    and frames: "sliceSpriteSheet nearest (Some black9) 1 1 False = Inr frames"
    and some: "(\<exists>cell \<in> set cells. spec_bounds cell \<noteq> None) \<longrightarrow> length frames = 1 * 1"
    by blast
  from black9_cells have "list_ex (\<lambda>cell. spec_bounds cell \<noteq> None) cells"
    by (simp only: cells sum.case)
  then have "\<exists>cell \<in> set cells. spec_bounds cell \<noteq> None"
    by (simp only: list_ex_iff)
  with some have "length frames = 1" by simp
  with frames have black:
    "\<exists>frames. sliceSpriteSheet nearest (Some black9) 1 1 False = Inr frames \<and> length frames = 1"
    by blast
  from C1_frame_count [OF white9_positive one one nearest_contexts, of False]
  obtain wcells wframes where
    wcells: "rawCanvasesOf nearest white9 1 1 False = Inr wcells"
    and wframes: "sliceSpriteSheet nearest (Some white9) 1 1 False = Inr wframes"
    and none: "(\<forall>cell \<in> set wcells. spec_bounds cell = None) \<longrightarrow> wframes = []"
    by blast
  from white9_cells have "list_all (\<lambda>cell. spec_bounds cell = None) wcells"
    by (simp only: wcells sum.case)
  then have "\<forall>cell \<in> set wcells. spec_bounds cell = None"
    by (simp only: list_all_iff)
  with none wframes have white: "sliceSpriteSheet nearest (Some white9) 1 1 False = Inr []"
    by simp
  from black9_positive white9_positive one nearest_contexts black white show ?thesis
    by (intro conjI)
qed



lemma dot2_single_cell: "\<lceil>spec_cellW dot2 1\<rceil> \<le> 8 \<or> \<lceil>spec_cellH dot2 1\<rceil> \<le> 8"
  by (simp add: spec_cellW_def spec_gridArea_def dot2_bounds)

theorem C10_small_cells_empty_witness:
  "positive dot2 \<and> (1::nat) \<le> 1 \<and>
   (\<lceil>spec_cellW dot2 1\<rceil> \<le> 8 \<or> \<lceil>spec_cellH dot2 1\<rceil> \<le> 8) \<and>
   spec_foregroundSet dot2 2 2 = {(1, 0)} \<and>
   sliceSpriteSheet nearest (Some dot2) 1 1 True = Inr []"
proof -
  have one: "(1::nat) \<le> 1" by simp
  from C10_small_cells_empty [OF dot2_positive one one dot2_single_cell, of nearest True]
  have "sliceSpriteSheet nearest (Some dot2) 1 1 True = Inr []"
    by (rule conjunct1)
  with dot2_positive one dot2_single_cell dot2_foreground show ?thesis
    by (intro conjI)
qed

end
